theory Spec2Isabelle
  imports Main "HOL-Library.Char_ord" "HOL-Library.List_Lexorder" "HOL-Library.Word"
begin

section \<open>Errors and authorization (src/utils/authorization.js)\<close>

text \<open>
  Errors a call of the note model can end with.  \<open>InsufficientPermissions\<close> and
  \<open>InvalidNotePath\<close> are the two \<open>new Error(...)\<close> the model throws itself.
  \<open>TypeError\<close> is the JavaScript run-time error of calling a value that is not a function
  and of reading a property of \<open>undefined\<close> or \<open>null\<close>; \<open>SyntaxError\<close> is that of
  \<open>new RegExp\<close> on a source that is not a pattern.
\<close>

datatype errno = ENOENT | ENOTDIR | EISDIR | EEXIST | ENOTEMPTY | EINVAL

datatype error =
    InsufficientPermissions
  | InvalidNotePath
  | TypeError
  | SyntaxError
  | FsError errno

text \<open>
  What the property read \<open>PERMISSIONS[role]\<close> yields.  \<open>PERMISSIONS\<close> is an object
  literal, so besides its four own keys the read finds every member of
  \<open>Object.prototype\<close>: eleven functions and the accessor \<open>__proto__\<close>, all truthy and
  none with an \<open>includes\<close> method.
\<close>

datatype permissions_entry =
    NoEntry
  | PermissionList "string list"
  | PrototypeMember

definition Object_prototype_members :: "string list" where
  "Object_prototype_members =
     [''constructor'', ''__defineGetter__'', ''__defineSetter__'', ''hasOwnProperty'',
      ''__lookupGetter__'', ''__lookupSetter__'', ''isPrototypeOf'',
      ''propertyIsEnumerable'', ''toString'', ''valueOf'', ''__proto__'',
      ''toLocaleString'']"

definition PERMISSIONS :: "string \<Rightarrow> permissions_entry" where
  "PERMISSIONS role =
     (if role = ''admin'' then
        PermissionList [''create'', ''read'', ''update'', ''delete'', ''search'']
      else if role = ''research'' then
        PermissionList [''create'', ''read'', ''update'', ''search'']
      else if role = ''writing'' then
        PermissionList [''create'', ''read'', ''update'', ''delete'', ''search'']
      else if role = ''analytics'' then
        PermissionList [''read'', ''search'']
      else if role \<in> set Object_prototype_members then PrototypeMember
      else NoEntry)"

text \<open>
  A role or operation argument is \<open>None\<close> when the caller passes \<open>undefined\<close> or
  \<open>null\<close>; the empty string is the other falsy string value.
\<close>

definition falsy :: "string option \<Rightarrow> bool" where
  "falsy v = (case v of None \<Rightarrow> True | Some s \<Rightarrow> s = [])"

definition isAuthorized :: "string option \<Rightarrow> string option \<Rightarrow> error + bool" where
  "isAuthorized role operation =
     (case (role, operation) of
        (Some r, Some opn) \<Rightarrow>
          (if r = [] \<or> opn = [] then Inr False
           else case PERMISSIONS r of
                  NoEntry \<Rightarrow> Inr False
                | PermissionList ps \<Rightarrow> Inr (opn \<in> set ps)
                | PrototypeMember \<Rightarrow> Inl TypeError)
      | _ \<Rightarrow> Inr False)"

section \<open>Strings\<close>

text \<open>
  A JavaScript string is modelled as a list of 8-bit characters standing for the UTF-16 code
  units \<open>0\<close> to \<open>255\<close>; strings with larger code units are outside the model.
  Comparison of strings by \<open><\<close> is lexicographic by code unit, as in JavaScript.
\<close>

definition isLineTerminator :: "char \<Rightarrow> bool" where
  "isLineTerminator c = (c = CHR 0x0A \<or> c = CHR 0x0D)"

text \<open>The characters \<open>String.prototype.trim\<close> strips: tab, LF, VT, FF, CR, space, NBSP.\<close>

definition isWhiteSpace :: "char \<Rightarrow> bool" where
  "isWhiteSpace c = ((of_char c :: nat) \<in> set [9, 10, 11, 12, 13, 32, 160])"

definition trim :: "string \<Rightarrow> string" where
  "trim s = rev (dropWhile isWhiteSpace (rev (dropWhile isWhiteSpace s)))"

definition toLowerCase_char :: "char \<Rightarrow> char" where
  "toLowerCase_char c =
     (let n = (of_char c :: nat)
      in if (65 \<le> n \<and> n \<le> 90) \<or> (192 \<le> n \<and> n \<le> 222 \<and> n \<noteq> 215)
         then char_of (n + 32) else c)"

definition toLowerCase :: "string \<Rightarrow> string" where
  "toLowerCase s = map toLowerCase_char s"

definition startsWith :: "string \<Rightarrow> string \<Rightarrow> bool" where
  "startsWith s p = (take (length p) s = p)"

definition endsWith :: "string \<Rightarrow> string \<Rightarrow> bool" where
  "endsWith s p = (length p \<le> length s \<and> drop (length s - length p) s = p)"

fun str_includes :: "string \<Rightarrow> string \<Rightarrow> bool" where
  "str_includes [] p = (p = [])"
| "str_includes (c # cs) p = (startsWith (c # cs) p \<or> str_includes cs p)"

text \<open>\<open>s.split(d)\<close> for a one-character separator.\<close>

fun splitOn :: "char \<Rightarrow> string \<Rightarrow> string list" where
  "splitOn d [] = [[]]"
| "splitOn d (c # cs) =
     (if c = d then [] # splitOn d cs
      else case splitOn d cs of
             [] \<Rightarrow> [[c]]
           | s # ss \<Rightarrow> (c # s) # ss)"

text \<open>
  The first occurrence of a pattern: the text before it and the text after it.  This is how
  a lazy group followed by a literal (\<open>([\s\S]*?)\n---\n\<close>) matches.
\<close>

fun splitFirst :: "string \<Rightarrow> string \<Rightarrow> (string \<times> string) option" where
  "splitFirst p [] = (if p = [] then Some ([], []) else None)"
| "splitFirst p (c # cs) =
     (if startsWith (c # cs) p then Some ([], drop (length p) (c # cs))
      else case splitFirst p cs of
             None \<Rightarrow> None
           | Some (a, b) \<Rightarrow> Some (c # a, b))"

section \<open>Values\<close>

text \<open>
  The values \<open>yaml.load\<close> can return and the model can pass to \<open>yaml.dump\<close>:
  \<open>undefined\<close> (an empty document), \<open>null\<close>, a boolean, a number (given by its IEEE 754
  binary64 encoding), a string, a \<open>Date\<close> object (given by its time value, the milliseconds
  since the epoch: a YAML timestamp such as the unquoted \<open>2025-03-15\<close> is loaded as one), an
  array, and a plain object (its entries in property order).  Binary data, which js-yaml
  loads for the explicit tag \<open>!!binary\<close> only, has no value here.
\<close>

datatype js_value =
    JUndefined
  | JNull
  | JBool bool
  | JNumber "64 word"
  | JString string
  | JDate int
  | JArray "js_value list"
  | JObject "(string \<times> js_value) list"

text \<open>
  \<open>ToBoolean\<close>: what \<open>!v\<close>, \<open>v && ...\<close> and \<open>if (v)\<close> test.  A number is falsy when it
  is \<open>+0\<close>, \<open>-0\<close> or \<open>NaN\<close>: when the 63 bits below its sign are zero or exceed those of
  infinity.
\<close>

definition ToBoolean :: "js_value \<Rightarrow> bool" where
  "ToBoolean v =
     (case v of
        JUndefined \<Rightarrow> False
      | JNull \<Rightarrow> False
      | JBool b \<Rightarrow> b
      | JNumber n \<Rightarrow>
          (let m = take_bit 63 n in m \<noteq> 0 \<and> m \<le> 0x7FF0000000000000)
      | JString s \<Rightarrow> s \<noteq> []
      | JDate t \<Rightarrow> True
      | JArray xs \<Rightarrow> True
      | JObject kvs \<Rightarrow> True)"

text \<open>
  The property read \<open>v.key\<close> for a key that no prototype defines, as \<open>tags\<close> and \<open>date\<close>:
  a \<open>TypeError\<close> on \<open>undefined\<close> and \<open>null\<close>, the own entry of a plain object, and
  \<open>undefined\<close> in every other case.
\<close>

definition getProperty :: "js_value \<Rightarrow> string \<Rightarrow> error + js_value" where
  "getProperty v key =
     (case v of
        JUndefined \<Rightarrow> Inl TypeError
      | JNull \<Rightarrow> Inl TypeError
      | JObject kvs \<Rightarrow> Inr (case map_of kvs key of Some x \<Rightarrow> x | None \<Rightarrow> JUndefined)
      | _ \<Rightarrow> Inr JUndefined)"

text \<open>
  The call \<open>v.includes(tag)\<close> with a string argument: \<open>String.prototype.includes\<close> on
  a string, \<open>Array.prototype.includes\<close> on an array (an element is found when it is the
  same string), and a \<open>TypeError\<close> on every other value, none of which has a method of this
  name.
\<close>

definition includesMethod :: "js_value \<Rightarrow> string \<Rightarrow> error + bool" where
  "includesMethod v tag =
     (case v of
        JString s \<Rightarrow> Inr (str_includes s tag)
      | JArray xs \<Rightarrow> Inr (JString tag \<in> set xs)
      | _ \<Rightarrow> Inl TypeError)"

text \<open>The decimal numeral of an array index.\<close>

function showNat :: "nat \<Rightarrow> string" where
  "showNat n =
     (if n < 10 then [char_of (48 + n)]
      else showNat (n div 10) @ [char_of (48 + n mod 10)])"
  by pat_completeness auto
termination
  by (relation "measure id") auto

text \<open>
  The entries an object literal takes from \<open>...v\<close>: the own enumerable properties of the
  value.  A plain object gives its entries, a string its characters and an array its
  elements under their indices, every other value nothing.
\<close>

definition indexed :: "js_value list \<Rightarrow> (string \<times> js_value) list" where
  "indexed xs = zip (map showNat [0 ..< length xs]) xs"

definition spreadEntries :: "js_value \<Rightarrow> (string \<times> js_value) list" where
  "spreadEntries v =
     (case v of
        JObject kvs \<Rightarrow> kvs
      | JString s \<Rightarrow> indexed (map (\<lambda>c. JString [c]) s)
      | JArray xs \<Rightarrow> indexed xs
      | _ \<Rightarrow> [])"

text \<open>
  An entry of an object literal after a spread, or an assignment to a property, for a key
  that is not an array index: an existing entry keeps its place, a new one comes last.
\<close>

definition setEntry :: "string \<Rightarrow> js_value \<Rightarrow> (string \<times> js_value) list \<Rightarrow> (string \<times> js_value) list" where
  "setEntry key v kvs =
     (if key \<in> fst ` set kvs then map (\<lambda>(k, x). if k = key then (k, v) else (k, x)) kvs
      else kvs @ [(key, v)])"

section \<open>Paths (the POSIX functions of Node's \<open>path\<close> module)\<close>

fun joinSegs :: "string list \<Rightarrow> string" where
  "joinSegs [] = []"
| "joinSegs [s] = s"
| "joinSegs (s # t # ss) = s @ ''/'' @ joinSegs (t # ss)"

text \<open>
  One step of \<open>normalizeString\<close>: empty segments and \<open>.\<close> are dropped, \<open>..\<close> removes
  the last kept segment unless that is \<open>..\<close> itself or there is none, in which case it
  is kept only when the path may climb above its start.
\<close>

definition normalizeStep :: "bool \<Rightarrow> string list \<Rightarrow> string \<Rightarrow> string list" where
  "normalizeStep allowAboveRoot res seg =
     (if seg = [] \<or> seg = ''.'' then res
      else if seg = ''..'' then
        (if res \<noteq> [] \<and> last res \<noteq> ''..'' then butlast res
         else if allowAboveRoot then res @ [''..'']
         else res)
      else res @ [seg])"

definition normalizeString :: "string \<Rightarrow> bool \<Rightarrow> string list" where
  "normalizeString p allowAboveRoot = foldl (normalizeStep allowAboveRoot) [] (splitOn CHR ''/'' p)"

definition isAbsolute :: "string \<Rightarrow> bool" where
  "isAbsolute p = (case p of [] \<Rightarrow> False | c # _ \<Rightarrow> c = CHR ''/'')"

definition trailingSeparator :: "string \<Rightarrow> bool" where
  "trailingSeparator p = (p \<noteq> [] \<and> last p = CHR ''/'')"

definition path_normalize :: "string \<Rightarrow> string" where
  "path_normalize p =
     (if p = [] then ''.''
      else let segs = normalizeString p (\<not> isAbsolute p)
           in if segs = [] then
                (if isAbsolute p then ''/''
                 else if trailingSeparator p then ''./'' else ''.'')
              else (if isAbsolute p then ''/'' else [])
                   @ joinSegs segs
                   @ (if trailingSeparator p then ''/'' else []))"

definition path_join :: "string list \<Rightarrow> string" where
  "path_join args =
     (let parts = filter (\<lambda>a. a \<noteq> []) args
      in if parts = [] then ''.'' else path_normalize (joinSegs parts))"

text \<open>
  \<open>path.resolve(p)\<close> with one argument: the segments of the absolute path, after
  \<open>process.cwd()\<close> is put in front of a relative \<open>p\<close>.  Symbolic links are not
  followed.
\<close>

definition resolveSegs :: "string \<Rightarrow> string \<Rightarrow> string list" where
  "resolveSegs cwd p =
     normalizeString (if isAbsolute p then p else cwd @ ''/'' @ p) False"

definition path_resolve :: "string \<Rightarrow> string \<Rightarrow> string" where
  "path_resolve cwd p = ''/'' @ joinSegs (resolveSegs cwd p)"

fun dropCommon :: "string list \<Rightarrow> string list \<Rightarrow> string list \<times> string list" where
  "dropCommon (x # xs) (y # ys) = (if x = y then dropCommon xs ys else (x # xs, y # ys))"
| "dropCommon xs ys = (xs, ys)"

definition path_relative :: "string \<Rightarrow> string \<Rightarrow> string \<Rightarrow> string" where
  "path_relative cwd from to =
     (case dropCommon (resolveSegs cwd from) (resolveSegs cwd to) of
        (restFrom, restTo) \<Rightarrow> joinSegs (replicate (length restFrom) ''..'' @ restTo))"

text \<open>\<open>path.basename(p)\<close>: the last component, trailing separators ignored.\<close>

definition stripTrailingSeparators :: "string \<Rightarrow> string" where
  "stripTrailingSeparators p = rev (dropWhile (\<lambda>c. c = CHR ''/'') (rev p))"

definition path_basename :: "string \<Rightarrow> string" where
  "path_basename p = last (splitOn CHR ''/'' (stripTrailingSeparators p))"

text \<open>
  \<open>path.basename(p, ext)\<close>.  The extension is removed when the last component ends with
  it and is longer than it.  When the component is a proper suffix of the extension, Node
  returns the component together with the trailing separators of \<open>p\<close>.
\<close>

definition path_basename_ext :: "string \<Rightarrow> string \<Rightarrow> string" where
  "path_basename_ext p ext =
     (if ext = [] \<or> length p < length ext then path_basename p
      else if ext = p then []
      else let b = path_basename p
           in if stripTrailingSeparators p = [] then p
              else if endsWith b ext then
                (if b = ext then b else take (length b - length ext) b)
              else if endsWith ext b then
                b @ drop (length (stripTrailingSeparators p)) p
              else b)"

section \<open>The file system\<close>

text \<open>
  The file system is a tree of named entries; the order of a directory's entries is the
  order \<open>readdir\<close> returns them in.  Symbolic links and access rights are not modelled.
  Every call of an \<open>fs\<close> function is recorded in \<open>calls\<close>, so that "no file-system
  access" is a statement about the state.
\<close>

datatype node = File string | Dir "(string \<times> node) list"

datatype fs_call =
    Access string
  | ReadFile string
  | WriteFile string string
  | Mkdir string
  | Rename string string
  | Unlink string
  | Readdir string

record world =
  tree :: node
  cwd :: string
  calls :: "fs_call list"

definition logCall :: "fs_call \<Rightarrow> world \<Rightarrow> world" where
  "logCall c w = w\<lparr>calls := calls w @ [c]\<rparr>"

fun lookup :: "node \<Rightarrow> string list \<Rightarrow> errno + node" where
  "lookup n [] = Inr n"
| "lookup (File c) (s # ss) = Inl ENOTDIR"
| "lookup (Dir es) (s # ss) =
     (case map_of es s of None \<Rightarrow> Inl ENOENT | Some n \<Rightarrow> lookup n ss)"

fun putEntry :: "string \<Rightarrow> node \<Rightarrow> (string \<times> node) list \<Rightarrow> (string \<times> node) list" where
  "putEntry k v [] = [(k, v)]"
| "putEntry k v (e # es) = (if fst e = k then (k, v) # es else e # putEntry k v es)"

definition removeEntry :: "string \<Rightarrow> (string \<times> node) list \<Rightarrow> (string \<times> node) list" where
  "removeEntry k es = filter (\<lambda>e. fst e \<noteq> k) es"

text \<open>
  \<open>alter path f t\<close> replaces what is at \<open>path\<close> by what \<open>f\<close> makes of it (\<open>None\<close>:
  no entry).  Every directory on the way must exist.
\<close>

fun alter :: "string list \<Rightarrow> (node option \<Rightarrow> errno + node option) \<Rightarrow> node \<Rightarrow> errno + node" where
  "alter [] f n =
     (case f (Some n) of
        Inl e \<Rightarrow> Inl e
      | Inr None \<Rightarrow> Inl EINVAL
      | Inr (Some n') \<Rightarrow> Inr n')"
| "alter (s # ss) f (File c) = Inl ENOTDIR"
| "alter [s] f (Dir es) =
     (case f (map_of es s) of
        Inl e \<Rightarrow> Inl e
      | Inr None \<Rightarrow> Inr (Dir (removeEntry s es))
      | Inr (Some n') \<Rightarrow> Inr (Dir (putEntry s n' es)))"
| "alter (s # t # ss) f (Dir es) =
     (case map_of es s of
        None \<Rightarrow> Inl ENOENT
      | Some n \<Rightarrow>
          (case alter (t # ss) f n of
             Inl e \<Rightarrow> Inl e
           | Inr n' \<Rightarrow> Inr (Dir (putEntry s n' es))))"

text \<open>\<open>mkdir\<close> with \<open>recursive: true\<close>: missing directories are created, existing ones kept.\<close>

fun mkdirp :: "string list \<Rightarrow> node \<Rightarrow> errno + node" where
  "mkdirp [] (Dir es) = Inr (Dir es)"
| "mkdirp [] (File c) = Inl EEXIST"
| "mkdirp (s # ss) (File c) = Inl ENOTDIR"
| "mkdirp (s # ss) (Dir es) =
     (case mkdirp ss (case map_of es s of None \<Rightarrow> Dir [] | Some n \<Rightarrow> n) of
        Inl e \<Rightarrow> Inl e
      | Inr n' \<Rightarrow> Inr (Dir (putEntry s n' es)))"

definition isFile :: "node \<Rightarrow> bool" where
  "isFile n = (case n of File c \<Rightarrow> True | Dir es \<Rightarrow> False)"

text \<open>
  The node a path names.  A relative path starts at the working directory; a path with a
  trailing separator names directories only; the empty path names nothing.
\<close>

definition resolveNode :: "world \<Rightarrow> string \<Rightarrow> errno + node" where
  "resolveNode w p =
     (if p = [] then Inl ENOENT
      else case lookup (tree w) (resolveSegs (cwd w) p) of
             Inl e \<Rightarrow> Inl e
           | Inr n \<Rightarrow> if trailingSeparator p \<and> isFile n then Inl ENOTDIR else Inr n)"

definition fs_access :: "string \<Rightarrow> world \<Rightarrow> (errno + unit) \<times> world" where
  "fs_access p w =
     (case resolveNode w p of
        Inl e \<Rightarrow> (Inl e, logCall (Access p) w)
      | Inr n \<Rightarrow> (Inr (), logCall (Access p) w))"

definition fs_readFile :: "string \<Rightarrow> world \<Rightarrow> (errno + string) \<times> world" where
  "fs_readFile p w =
     (case resolveNode w p of
        Inl e \<Rightarrow> (Inl e, logCall (ReadFile p) w)
      | Inr (Dir es) \<Rightarrow> (Inl EISDIR, logCall (ReadFile p) w)
      | Inr (File c) \<Rightarrow> (Inr c, logCall (ReadFile p) w))"

definition writeAt :: "bool \<Rightarrow> string \<Rightarrow> node option \<Rightarrow> errno + node option" where
  "writeAt trailing c old =
     (case old of
        Some (Dir es) \<Rightarrow> Inl EISDIR
      | Some (File c') \<Rightarrow> if trailing then Inl ENOTDIR else Inr (Some (File c))
      | None \<Rightarrow> if trailing then Inl EISDIR else Inr (Some (File c)))"

definition fs_writeFile :: "string \<Rightarrow> string \<Rightarrow> world \<Rightarrow> (errno + unit) \<times> world" where
  "fs_writeFile p c w =
     (if p = [] then (Inl ENOENT, logCall (WriteFile p c) w)
      else case alter (resolveSegs (cwd w) p) (writeAt (trailingSeparator p) c) (tree w) of
             Inl e \<Rightarrow> (Inl e, logCall (WriteFile p c) w)
           | Inr t \<Rightarrow> (Inr (), logCall (WriteFile p c) (w\<lparr>tree := t\<rparr>)))"

definition fs_mkdir :: "string \<Rightarrow> world \<Rightarrow> (errno + unit) \<times> world" where
  "fs_mkdir p w =
     (if p = [] then (Inl ENOENT, logCall (Mkdir p) w)
      else case mkdirp (resolveSegs (cwd w) p) (tree w) of
             Inl e \<Rightarrow> (Inl e, logCall (Mkdir p) w)
           | Inr t \<Rightarrow> (Inr (), logCall (Mkdir p) (w\<lparr>tree := t\<rparr>)))"

definition removeAt :: "node option \<Rightarrow> errno + node option" where
  "removeAt old = Inr None"

definition unlinkAt :: "node option \<Rightarrow> errno + node option" where
  "unlinkAt old =
     (case old of
        None \<Rightarrow> Inl ENOENT
      | Some (Dir es) \<Rightarrow> Inl EISDIR
      | Some (File c) \<Rightarrow> Inr None)"

definition fs_unlink :: "string \<Rightarrow> world \<Rightarrow> (errno + unit) \<times> world" where
  "fs_unlink p w =
     (case resolveNode w p of
        Inl e \<Rightarrow> (Inl e, logCall (Unlink p) w)
      | Inr n \<Rightarrow>
          (case alter (resolveSegs (cwd w) p) unlinkAt (tree w) of
             Inl e \<Rightarrow> (Inl e, logCall (Unlink p) w)
           | Inr t \<Rightarrow> (Inr (), logCall (Unlink p) (w\<lparr>tree := t\<rparr>))))"

text \<open>
  What \<open>rename\<close> puts at the new path: a file replaces a file, a directory replaces an
  empty directory, an absent entry is created.
\<close>

definition renameOnto :: "bool \<Rightarrow> node \<Rightarrow> node option \<Rightarrow> errno + node option" where
  "renameOnto trailing src old =
     (case (src, old) of
        (File c, Some (Dir es)) \<Rightarrow> Inl EISDIR
      | (File c, Some (File c')) \<Rightarrow> if trailing then Inl ENOTDIR else Inr (Some src)
      | (File c, None) \<Rightarrow> if trailing then Inl ENOTDIR else Inr (Some src)
      | (Dir es, Some (File c')) \<Rightarrow> Inl ENOTDIR
      | (Dir es, Some (Dir es')) \<Rightarrow> if es' = [] then Inr (Some src) else Inl ENOTEMPTY
      | (Dir es, None) \<Rightarrow> Inr (Some src))"

definition fs_rename :: "string \<Rightarrow> string \<Rightarrow> world \<Rightarrow> (errno + unit) \<times> world" where
  "fs_rename old new w =
     (let so = resolveSegs (cwd w) old;
          sn = resolveSegs (cwd w) new;
          w' = logCall (Rename old new) w
      in case resolveNode w old of
           Inl e \<Rightarrow> (Inl e, w')
         | Inr src \<Rightarrow>
             if new = [] then (Inl ENOENT, w')
             else if so = sn then (Inr (), w')
             else if take (length so) sn = so then (Inl EINVAL, w')
             else case alter sn (renameOnto (trailingSeparator new) src) (tree w) of
                    Inl e \<Rightarrow> (Inl e, w')
                  | Inr t1 \<Rightarrow>
                      (case alter so removeAt t1 of
                         Inl e \<Rightarrow> (Inl e, w')
                       | Inr t2 \<Rightarrow> (Inr (), w'\<lparr>tree := t2\<rparr>)))"

section \<open>Notes and their text form (src/utils/noteFormatter.js)\<close>

text \<open>
  A note as \<open>parseNoteContent\<close> returns it.  Its metadata is whatever \<open>yaml.load\<close>
  returned for the front matter, or the empty object.
\<close>

record noteRecord =
  note_id :: string
  note_path :: string
  title :: string
  content :: string
  metadata :: js_value

text \<open>
  The environment of the process: the notes directory (\<open>process.env.NOTES_DIR || './notes'\<close>),
  the current date as \<open>new Date().toISOString().split('T')[0]\<close> gives it, and what the code
  takes from outside the repository.
  \<^item> The two functions of the js-yaml library; \<open>yaml_load\<close> returns \<open>Inl ()\<close> when js-yaml
    throws.
  \<^item> \<open>lessThan_platform a b\<close>: the result of \<open>a < b\<close> for the operands whose comparison
    goes through the conversions to a primitive and to a number; \<open>None\<close> when that
    conversion throws its \<open>TypeError\<close>.
  \<^item> \<open>regexp_matches source\<close>: \<open>None\<close> when \<open>new RegExp(source, 'g')\<close> throws its
    \<open>SyntaxError\<close>, otherwise the function that gives for a string \<open>s\<close> the number
    \<open>(s.match(re) || []).length\<close> of matches.
\<close>

record env =
  NOTES_DIR :: string
  today :: string
  yaml_load :: "string \<Rightarrow> unit + js_value"
  yaml_dump :: "js_value \<Rightarrow> string"
  lessThan_platform :: "js_value \<Rightarrow> js_value \<Rightarrow> bool option"
  regexp_matches :: "string \<Rightarrow> (string \<Rightarrow> nat) option"

text \<open>
  The comparison \<open>a < b\<close> (\<open>a > b\<close> is \<open>b < a\<close>).  Two strings are compared by code
  units and two dates by their time values; with \<open>undefined\<close> against a primitive value
  or a date the result is false, since \<open>undefined\<close> converts to \<open>NaN\<close>.  All other pairs
  of operands are left to the platform.
\<close>

definition simpleOperand :: "js_value \<Rightarrow> bool" where
  "simpleOperand v = (case v of JArray xs \<Rightarrow> False | JObject kvs \<Rightarrow> False | _ \<Rightarrow> True)"

definition js_lessThan :: "env \<Rightarrow> js_value \<Rightarrow> js_value \<Rightarrow> error + bool" where
  "js_lessThan E a b =
     (if (a = JUndefined \<and> simpleOperand b) \<or> (b = JUndefined \<and> simpleOperand a)
      then Inr False
      else case (a, b) of
             (JString x, JString y) \<Rightarrow> Inr (x < y)
           | (JDate s, JDate t) \<Rightarrow> Inr (s < t)
           | _ \<Rightarrow> (case lessThan_platform E a b of
                     None \<Rightarrow> Inl TypeError
                   | Some r \<Rightarrow> Inr r))"

text \<open>
  \<open>content.match(/^---\n([\s\S]*?)\n---\n([\s\S]*)$/)\<close>: the text must start with the
  line \<open>---\<close>; the first group ends at the first following line \<open>---\<close>, the second group
  is all the rest.
\<close>

definition metadataMatch :: "string \<Rightarrow> (string \<times> string) option" where
  "metadataMatch text =
     (if startsWith text ''---\<newline>'' then splitFirst ''\<newline>---\<newline>'' (drop 4 text)
      else None)"

text \<open>
  \<open>body.match(/^# (.*?)$/m)\<close>: the first line that starts with \<open># \<close>; the group is the
  rest of that line.  \<open>atLineStart\<close> says whether the position is the start of the text or
  follows a line terminator.
\<close>

fun titleScan :: "bool \<Rightarrow> string \<Rightarrow> string option" where
  "titleScan atLineStart [] = None"
| "titleScan atLineStart (c # cs) =
     (if atLineStart \<and> startsWith (c # cs) ''# ''
      then Some (takeWhile (\<lambda>x. \<not> isLineTerminator x) (drop 2 (c # cs)))
      else titleScan (isLineTerminator c) cs)"

definition titleMatch :: "string \<Rightarrow> string option" where
  "titleMatch body = titleScan True body"

definition parseNoteContent :: "env \<Rightarrow> string \<Rightarrow> string \<Rightarrow> string \<Rightarrow> string \<Rightarrow> noteRecord" where
  "parseNoteContent E wd text filePath notesDir =
     (case metadataMatch text of
        None \<Rightarrow>
          \<lparr>note_id = path_relative wd notesDir filePath,
           note_path = filePath,
           title = (case titleMatch text of
                      Some t \<Rightarrow> t
                    | None \<Rightarrow> path_basename_ext filePath ''.md''),
           content = text,
           metadata = JObject []\<rparr>
      | Some (yamlText, bodyContent) \<Rightarrow>
          (case yaml_load E yamlText of
             Inr md \<Rightarrow>
               \<lparr>note_id = path_relative wd notesDir filePath,
                note_path = filePath,
                title = (case titleMatch bodyContent of
                           Some t \<Rightarrow> t
                         | None \<Rightarrow> path_basename_ext filePath ''.md''),
                content = trim bodyContent,
                metadata = md\<rparr>
           | Inl u \<Rightarrow>
               \<lparr>note_id = path_relative wd notesDir filePath,
                note_path = filePath,
                title = path_basename_ext filePath ''.md'',
                content = text,
                metadata = JObject []\<rparr>))"

definition formatNoteContent :: "env \<Rightarrow> js_value \<Rightarrow> string \<Rightarrow> string \<Rightarrow> string" where
  "formatNoteContent E md ttl body =
     (if startsWith (trim body) ''# ''
      then ''---\<newline>'' @ yaml_dump E md @ ''---\<newline>\<newline>'' @ body
      else ''---\<newline>'' @ yaml_dump E md @ ''---\<newline>\<newline># '' @ ttl
           @ ''\<newline>\<newline>'' @ body)"

section \<open>Callbacks that can throw\<close>

text \<open>
  \<open>Array.prototype.filter\<close> and \<open>Array.prototype.some\<close> with a callback that may throw:
  the elements are visited in order and the first error ends the call.
\<close>

fun Array_filter :: "('a \<Rightarrow> error + bool) \<Rightarrow> 'a list \<Rightarrow> error + 'a list" where
  "Array_filter p [] = Inr []"
| "Array_filter p (x # xs) =
     (case p x of
        Inl e \<Rightarrow> Inl e
      | Inr b \<Rightarrow>
          (case Array_filter p xs of
             Inl e \<Rightarrow> Inl e
           | Inr ys \<Rightarrow> Inr (if b then x # ys else ys)))"

fun Array_some :: "('a \<Rightarrow> error + bool) \<Rightarrow> 'a list \<Rightarrow> error + bool" where
  "Array_some p [] = Inr False"
| "Array_some p (x # xs) =
     (case p x of
        Inl e \<Rightarrow> Inl e
      | Inr b \<Rightarrow> if b then Inr True else Array_some p xs)"

text \<open>
  \<open>Array.prototype.sort\<close> with a comparison function.  ECMAScript requires a stable sort;
  for a comparison function that is a consistent ordering every stable sort gives this result.
  For one that is not (the date comparison on notes without a date), the order is left to
  the implementation and the model fixes it by insertion.  The comparison function is not
  called for an array of fewer than two elements, and is called on every element of a
  longer one; an error it throws ends the sort.
\<close>

fun insertSorted :: "('a \<Rightarrow> 'a \<Rightarrow> error + int) \<Rightarrow> 'a \<Rightarrow> 'a list \<Rightarrow> error + 'a list" where
  "insertSorted cmp x [] = Inr [x]"
| "insertSorted cmp x (y # ys) =
     (case cmp x y of
        Inl e \<Rightarrow> Inl e
      | Inr c \<Rightarrow>
          if c \<le> 0 then Inr (x # y # ys)
          else case insertSorted cmp x ys of
                 Inl e \<Rightarrow> Inl e
               | Inr zs \<Rightarrow> Inr (y # zs))"

fun Array_sort :: "('a \<Rightarrow> 'a \<Rightarrow> error + int) \<Rightarrow> 'a list \<Rightarrow> error + 'a list" where
  "Array_sort cmp [] = Inr []"
| "Array_sort cmp (x # xs) =
     (case Array_sort cmp xs of
        Inl e \<Rightarrow> Inl e
      | Inr ys \<Rightarrow> insertSorted cmp x ys)"

section \<open>The note model\<close>

definition ensureNotesDirectory :: "env \<Rightarrow> world \<Rightarrow> (error + unit) \<times> world" where
  "ensureNotesDirectory E w =
     (case fs_access (NOTES_DIR E) w of
        (Inr u, w0) \<Rightarrow> (Inr (), w0)
      | (Inl e0, w0) \<Rightarrow>
          (case fs_mkdir (NOTES_DIR E) w0 of
             (Inl e, w1) \<Rightarrow> (Inl (FsError e), w1)
           | (Inr u1, w1) \<Rightarrow>
          (case fs_mkdir (path_join [NOTES_DIR E, ''topics'']) w1 of
             (Inl e, w2) \<Rightarrow> (Inl (FsError e), w2)
           | (Inr u2, w2) \<Rightarrow>
          (case fs_mkdir (path_join [NOTES_DIR E, ''projects'']) w2 of
             (Inl e, w3) \<Rightarrow> (Inl (FsError e), w3)
           | (Inr u3, w3) \<Rightarrow>
          (case fs_mkdir (path_join [NOTES_DIR E, ''references'']) w3 of
             (Inl e, w4) \<Rightarrow> (Inl (FsError e), w4)
           | (Inr u4, w4) \<Rightarrow>
          (case fs_mkdir (path_join [NOTES_DIR E, ''archive'']) w4 of
             (Inl e, w5) \<Rightarrow> (Inl (FsError e), w5)
           | (Inr u5, w5) \<Rightarrow> (Inr (), w5)))))))"

text \<open>
  \<open>processDirectory\<close>, on the entries \<open>readdir\<close> returned: a directory is walked before
  the entries after it, a file whose name ends in \<open>.md\<close> is read and parsed, anything else
  is skipped.  The result is the notes pushed and the \<open>fs\<close> calls made.
\<close>

fun processDirectory ::
  "env \<Rightarrow> string \<Rightarrow> string \<Rightarrow> (string \<times> node) list \<Rightarrow> noteRecord list \<times> fs_call list" where
  "processDirectory E wd dirPath [] = ([], [])"
| "processDirectory E wd dirPath ((name, Dir sub) # rest) =
     (case processDirectory E wd (path_join [dirPath, name]) sub of
        (ns1, cs1) \<Rightarrow>
          (case processDirectory E wd dirPath rest of
             (ns2, cs2) \<Rightarrow>
               (ns1 @ ns2, Readdir (path_join [dirPath, name]) # cs1 @ cs2)))"
| "processDirectory E wd dirPath ((name, File text) # rest) =
     (case processDirectory E wd dirPath rest of
        (ns2, cs2) \<Rightarrow>
          if endsWith name ''.md''
          then (parseNoteContent E wd text (path_join [dirPath, name]) (NOTES_DIR E) # ns2,
                ReadFile (path_join [dirPath, name]) # cs2)
          else (ns2, cs2))"

text \<open>
  The comparison function of the listing: \<open>a.metadata.date > b.metadata.date\<close>, then
  \<open>a.metadata.date < b.metadata.date\<close>.
\<close>

definition dateCompare :: "env \<Rightarrow> noteRecord \<Rightarrow> noteRecord \<Rightarrow> error + int" where
  "dateCompare E a b =
     (case getProperty (metadata a) ''date'' of
        Inl e \<Rightarrow> Inl e
      | Inr da \<Rightarrow>
     (case getProperty (metadata b) ''date'' of
        Inl e \<Rightarrow> Inl e
      | Inr db \<Rightarrow>
     (case js_lessThan E db da of
        Inl e \<Rightarrow> Inl e
      | Inr gt \<Rightarrow>
          if gt then Inr (- 1)
          else (case js_lessThan E da db of
                  Inl e \<Rightarrow> Inl e
                | Inr lt \<Rightarrow> if lt then Inr 1 else Inr 0))))"

definition getAllNotesInternal :: "env \<Rightarrow> world \<Rightarrow> (error + noteRecord list) \<times> world" where
  "getAllNotesInternal E w =
     (case ensureNotesDirectory E w of
        (Inl e, w1) \<Rightarrow> (Inl e, w1)
      | (Inr u, w1) \<Rightarrow>
          (case resolveNode w1 (NOTES_DIR E) of
             Inl e \<Rightarrow> (Inl (FsError e), logCall (Readdir (NOTES_DIR E)) w1)
           | Inr (File text) \<Rightarrow> (Inl (FsError ENOTDIR), logCall (Readdir (NOTES_DIR E)) w1)
           | Inr (Dir es) \<Rightarrow>
               (case processDirectory E (cwd w1) (NOTES_DIR E) es of
                  (ns, cs) \<Rightarrow>
                    (Array_sort (dateCompare E) ns,
                     w1\<lparr>calls := calls w1 @ Readdir (NOTES_DIR E) # cs\<rparr>))))"

text \<open>\<open>note.metadata.tags && note.metadata.tags.includes(tag)\<close>, as a condition.\<close>

definition hasTag :: "noteRecord \<Rightarrow> string \<Rightarrow> error + bool" where
  "hasTag n tag =
     (case getProperty (metadata n) ''tags'' of
        Inl e \<Rightarrow> Inl e
      | Inr noteTags \<Rightarrow>
          if ToBoolean noteTags then includesMethod noteTags tag else Inr False)"

definition hasAnyTag :: "string list \<Rightarrow> noteRecord \<Rightarrow> error + bool" where
  "hasAnyTag tagList n = Array_some (hasTag n) tagList"

definition inCategory :: "string \<Rightarrow> noteRecord \<Rightarrow> bool" where
  "inCategory category n = str_includes (note_path n) (''/'' @ category @ ''/'')"

definition matchesKeyword :: "string \<Rightarrow> noteRecord \<Rightarrow> bool" where
  "matchesKeyword keyword n =
     (str_includes (toLowerCase (content n)) (toLowerCase keyword) \<or>
      str_includes (toLowerCase (title n)) (toLowerCase keyword))"

definition getAllNotes ::
  "env \<Rightarrow> string option \<Rightarrow> string option \<Rightarrow> string option \<Rightarrow> string option \<Rightarrow> world
     \<Rightarrow> (error + noteRecord list) \<times> world" where
  "getAllNotes E role tagsArg category keyword w =
     (case isAuthorized role (Some ''read'') of
        Inl e \<Rightarrow> (Inl e, w)
      | Inr False \<Rightarrow> (Inl InsufficientPermissions, w)
      | Inr True \<Rightarrow>
          (case ensureNotesDirectory E w of
             (Inl e, w1) \<Rightarrow> (Inl e, w1)
           | (Inr u, w1) \<Rightarrow>
               (case getAllNotesInternal E w1 of
                  (Inl e, w2) \<Rightarrow> (Inl e, w2)
                | (Inr allNotes, w2) \<Rightarrow>
                    (case (case tagsArg of
                             None \<Rightarrow> Inr allNotes
                           | Some t \<Rightarrow>
                               if t = [] then Inr allNotes
                               else Array_filter (hasAnyTag (splitOn CHR '','' t)) allNotes) of
                       Inl e \<Rightarrow> (Inl e, w2)
                     | Inr byTags \<Rightarrow>
                         (let byCategory = (case category of
                                              None \<Rightarrow> byTags
                                            | Some c \<Rightarrow>
                                                if c = [] then byTags
                                                else filter (inCategory c) byTags);
                              byKeyword = (case keyword of
                                             None \<Rightarrow> byCategory
                                           | Some k \<Rightarrow>
                                               if k = [] then byCategory
                                               else filter (matchesKeyword k) byCategory)
                          in (Inr byKeyword, w2))))))"

text \<open>A failed \<open>fs\<close> call inside the \<open>try\<close> block: \<open>ENOENT\<close> becomes the result \<open>null\<close>.\<close>

definition catchENOENT :: "errno \<Rightarrow> world \<Rightarrow> (error + 'a option) \<times> world" where
  "catchENOENT e w = (if e = ENOENT then (Inr None, w) else (Inl (FsError e), w))"

definition insideNotesDir :: "env \<Rightarrow> world \<Rightarrow> string \<Rightarrow> bool" where
  "insideNotesDir E w notePath =
     startsWith (path_resolve (cwd w) notePath) (path_resolve (cwd w) (NOTES_DIR E))"

definition getNoteById ::
  "env \<Rightarrow> string option \<Rightarrow> string \<Rightarrow> world \<Rightarrow> (error + noteRecord option) \<times> world" where
  "getNoteById E role noteId w =
     (case isAuthorized role (Some ''read'') of
        Inl e \<Rightarrow> (Inl e, w)
      | Inr False \<Rightarrow> (Inl InsufficientPermissions, w)
      | Inr True \<Rightarrow>
          (let notePath = path_join [NOTES_DIR E, noteId]
           in if \<not> insideNotesDir E w notePath then (Inl InvalidNotePath, w)
              else case fs_readFile notePath w of
                     (Inl e, w1) \<Rightarrow> catchENOENT e w1
                   | (Inr text, w1) \<Rightarrow>
                       (Inr (Some (parseNoteContent E (cwd w) text notePath (NOTES_DIR E))), w1)))"

record created =
  created_id :: string
  created_title :: string
  created_path :: string
  created_date :: string

text \<open>\<open>s.replace(/[^a-z0-9]+/g, '_')\<close>\<close>

definition isSlugChar :: "char \<Rightarrow> bool" where
  "isSlugChar c =
     (let n = (of_char c :: nat) in (97 \<le> n \<and> n \<le> 122) \<or> (48 \<le> n \<and> n \<le> 57))"

function replaceRuns :: "string \<Rightarrow> string" where
  "replaceRuns [] = []"
| "replaceRuns (c # cs) =
     (if isSlugChar c then c # replaceRuns cs
      else CHR ''_'' # replaceRuns (dropWhile (\<lambda>x. \<not> isSlugChar x) cs))"
  by pat_completeness auto
termination
  by (relation "measure length") (auto simp: less_Suc_eq_le length_dropWhile_le)

definition slug :: "string \<Rightarrow> string" where
  "slug ttl = replaceRuns (toLowerCase ttl)"

definition createNote ::
  "env \<Rightarrow> string option \<Rightarrow> string \<Rightarrow> string \<Rightarrow> string list \<Rightarrow> string \<Rightarrow> string \<Rightarrow> world
     \<Rightarrow> (error + created) \<times> world" where
  "createNote E role ttl body tagList category authorName w =
     (case isAuthorized role (Some ''create'') of
        Inl e \<Rightarrow> (Inl e, w)
      | Inr False \<Rightarrow> (Inl InsufficientPermissions, w)
      | Inr True \<Rightarrow>
          (case ensureNotesDirectory E w of
             (Inl e, w1) \<Rightarrow> (Inl e, w1)
           | (Inr u, w1) \<Rightarrow>
               (let dateStr = today E;
                    filename = dateStr @ ''_'' @ slug ttl @ ''.md'';
                    categoryDir = path_join [NOTES_DIR E, category]
                in case fs_mkdir categoryDir w1 of
                     (Inl e, w2) \<Rightarrow> (Inl (FsError e), w2)
                   | (Inr u2, w2) \<Rightarrow>
                       (let filePath = path_join [categoryDir, filename];
                            md = JObject [(''date'', JString dateStr),
                                          (''tags'', JArray (map JString tagList)),
                                          (''related'', JArray []),
                                          (''author'', JString authorName)];
                            fullContent = formatNoteContent E md ttl body
                        in case fs_writeFile filePath fullContent w2 of
                             (Inl e, w3) \<Rightarrow> (Inl (FsError e), w3)
                           | (Inr u3, w3) \<Rightarrow>
                               (Inr \<lparr>created_id = path_relative (cwd w) (NOTES_DIR E) filePath,
                                     created_title = ttl,
                                     created_path = filePath,
                                     created_date = dateStr\<rparr>, w3)))))"

record updated =
  updated_id :: string
  updated_title :: string
  updated_date :: string

text \<open>\<open>a || b\<close> on an optional string: \<open>a\<close> when it is given and not empty.\<close>

definition orElse :: "string option \<Rightarrow> string \<Rightarrow> string" where
  "orElse a b = (case a of None \<Rightarrow> b | Some x \<Rightarrow> if x = [] then b else x)"

definition updateNote ::
  "env \<Rightarrow> string option \<Rightarrow> string \<Rightarrow> string option \<Rightarrow> string option \<Rightarrow> string list option
     \<Rightarrow> world \<Rightarrow> (error + updated option) \<times> world" where
  "updateNote E role noteId ttl body tagList w =
     (case isAuthorized role (Some ''update'') of
        Inl e \<Rightarrow> (Inl e, w)
      | Inr False \<Rightarrow> (Inl InsufficientPermissions, w)
      | Inr True \<Rightarrow>
          (let notePath = path_join [NOTES_DIR E, noteId]
           in if \<not> insideNotesDir E w notePath then (Inl InvalidNotePath, w)
              else case fs_access notePath w of
                     (Inl e, w1) \<Rightarrow> catchENOENT e w1
                   | (Inr u, w1) \<Rightarrow>
                  (case fs_readFile notePath w1 of
                     (Inl e, w2) \<Rightarrow> catchENOENT e w2
                   | (Inr existingContent, w2) \<Rightarrow>
                       (let n = parseNoteContent E (cwd w) existingContent notePath (NOTES_DIR E);
                            md0 = setEntry ''lastModified'' (JString (today E))
                                    (spreadEntries (metadata n));
                            updatedMetadata =
                              JObject (case tagList of
                                         None \<Rightarrow> md0
                                       | Some ts \<Rightarrow>
                                           setEntry ''tags'' (JArray (map JString ts)) md0);
                            updatedTitle = orElse ttl (title n);
                            updatedContent = orElse body (content n);
                            fullContent =
                              formatNoteContent E updatedMetadata updatedTitle updatedContent
                        in case fs_writeFile notePath fullContent w2 of
                             (Inl e, w3) \<Rightarrow> catchENOENT e w3
                           | (Inr u3, w3) \<Rightarrow>
                               (Inr (Some \<lparr>updated_id = noteId,
                                           updated_title = updatedTitle,
                                           updated_date = today E\<rparr>), w3)))))"

record deleted =
  deleted_message :: string
  deleted_id :: "string option"

definition deleteNote ::
  "env \<Rightarrow> string option \<Rightarrow> string \<Rightarrow> bool \<Rightarrow> world \<Rightarrow> (error + deleted option) \<times> world" where
  "deleteNote E role noteId shouldArchive w =
     (case isAuthorized role (Some ''delete'') of
        Inl e \<Rightarrow> (Inl e, w)
      | Inr False \<Rightarrow> (Inl InsufficientPermissions, w)
      | Inr True \<Rightarrow>
          (let notePath = path_join [NOTES_DIR E, noteId]
           in if \<not> insideNotesDir E w notePath then (Inl InvalidNotePath, w)
              else case fs_access notePath w of
                     (Inl e, w1) \<Rightarrow> catchENOENT e w1
                   | (Inr u, w1) \<Rightarrow>
                       if shouldArchive then
                         (let fileName = path_basename notePath;
                              archivePath = path_join [NOTES_DIR E, ''archive'', fileName]
                          in case fs_mkdir (path_join [NOTES_DIR E, ''archive'']) w1 of
                               (Inl e, w2) \<Rightarrow> catchENOENT e w2
                             | (Inr u2, w2) \<Rightarrow>
                            (case fs_rename notePath archivePath w2 of
                               (Inl e, w3) \<Rightarrow> catchENOENT e w3
                             | (Inr u3, w3) \<Rightarrow>
                                 (Inr (Some \<lparr>deleted_message = ''Note archived'',
                                             deleted_id =
                                               Some (path_relative (cwd w) (NOTES_DIR E) archivePath)\<rparr>),
                                  w3)))
                       else
                         (case fs_unlink notePath w1 of
                            (Inl e, w2) \<Rightarrow> catchENOENT e w2
                          | (Inr u2, w2) \<Rightarrow>
                              (Inr (Some \<lparr>deleted_message = ''Note deleted'',
                                          deleted_id = None\<rparr>), w2))))"

record appended =
  appended_id :: string
  appended_message :: string

definition appendToNote ::
  "env \<Rightarrow> string option \<Rightarrow> string \<Rightarrow> string \<Rightarrow> world \<Rightarrow> (error + appended option) \<times> world" where
  "appendToNote E role noteId body w =
     (case isAuthorized role (Some ''update'') of
        Inl e \<Rightarrow> (Inl e, w)
      | Inr False \<Rightarrow> (Inl InsufficientPermissions, w)
      | Inr True \<Rightarrow>
          (let notePath = path_join [NOTES_DIR E, noteId]
           in if \<not> insideNotesDir E w notePath then (Inl InvalidNotePath, w)
              else case fs_access notePath w of
                     (Inl e, w1) \<Rightarrow> catchENOENT e w1
                   | (Inr u, w1) \<Rightarrow>
                  (case fs_readFile notePath w1 of
                     (Inl e, w2) \<Rightarrow> catchENOENT e w2
                   | (Inr existingContent, w2) \<Rightarrow>
                       (let n = parseNoteContent E (cwd w) existingContent notePath (NOTES_DIR E);
                            updatedMetadata =
                              JObject (setEntry ''lastModified'' (JString (today E))
                                         (spreadEntries (metadata n)));
                            updatedContent = content n @ ''\<newline>\<newline>'' @ body;
                            fullContent =
                              formatNoteContent E updatedMetadata (title n) updatedContent
                        in case fs_writeFile notePath fullContent w2 of
                             (Inl e, w3) \<Rightarrow> catchENOENT e w3
                           | (Inr u3, w3) \<Rightarrow>
                               (Inr (Some \<lparr>appended_id = noteId,
                                           appended_message = ''Content appended successfully''\<rparr>),
                                w3)))))"

text \<open>
  The \<open>filters\<close> argument of a search; a date range has an optional start and end.
\<close>

record filters =
  filter_tags :: "string list option"
  filter_category :: "string option"
  filter_dateRange :: "(string option \<times> string option) option"

definition matchesQuery :: "string \<Rightarrow> noteRecord \<Rightarrow> bool" where
  "matchesQuery query n =
     (str_includes (toLowerCase (title n)) (toLowerCase query) \<or>
      str_includes (toLowerCase (content n)) (toLowerCase query))"

definition passesTags :: "filters \<Rightarrow> noteRecord \<Rightarrow> error + bool" where
  "passesTags fl n =
     (case filter_tags fl of
        None \<Rightarrow> Inr True
      | Some ts \<Rightarrow>
          if ts = [] then Inr True
          else case getProperty (metadata n) ''tags'' of
                 Inl e \<Rightarrow> Inl e
               | Inr noteTags \<Rightarrow>
                   if \<not> ToBoolean noteTags then Inr False
                   else Array_some (includesMethod noteTags) ts)"

definition passesCategory :: "filters \<Rightarrow> noteRecord \<Rightarrow> bool" where
  "passesCategory fl n =
     (case filter_category fl of
        None \<Rightarrow> True
      | Some c \<Rightarrow> if c = [] then True else inCategory c n)"

text \<open>
  \<open>if (start && noteDate < start) return false; if (end && noteDate > end) return false;\<close>
  with \<open>noteDate = note.metadata.date\<close>: a bound that is missing or empty is not compared.
\<close>

definition passesDateRange :: "env \<Rightarrow> filters \<Rightarrow> noteRecord \<Rightarrow> error + bool" where
  "passesDateRange E fl n =
     (case filter_dateRange fl of
        None \<Rightarrow> Inr True
      | Some (start, end) \<Rightarrow>
          (case getProperty (metadata n) ''date'' of
             Inl e \<Rightarrow> Inl e
           | Inr noteDate \<Rightarrow>
          (case (case start of
                   None \<Rightarrow> Inr False
                 | Some s \<Rightarrow> if s = [] then Inr False else js_lessThan E noteDate (JString s)) of
             Inl e \<Rightarrow> Inl e
           | Inr before \<Rightarrow>
               if before then Inr False
               else (case (case end of
                             None \<Rightarrow> Inr False
                           | Some s \<Rightarrow>
                               if s = [] then Inr False
                               else js_lessThan E (JString s) noteDate) of
                       Inl e \<Rightarrow> Inl e
                     | Inr after \<Rightarrow> Inr (\<not> after)))))"

definition searchFilter :: "env \<Rightarrow> string \<Rightarrow> filters \<Rightarrow> noteRecord \<Rightarrow> error + bool" where
  "searchFilter E query fl n =
     (if \<not> matchesQuery query n then Inr False
      else case passesTags fl n of
             Inl e \<Rightarrow> Inl e
           | Inr t \<Rightarrow>
               if \<not> t then Inr False
               else if \<not> passesCategory fl n then Inr False
               else passesDateRange E fl n)"

text \<open>
  The comparison function of the ranking: it makes the pattern from the query each time
  it is called, counts the matches in the title and in the content of both notes, and
  returns \<open>countB - countA\<close>.
\<close>

definition relevanceCount :: "(string \<Rightarrow> nat) \<Rightarrow> noteRecord \<Rightarrow> nat" where
  "relevanceCount matches n = matches (toLowerCase (title n)) + matches (toLowerCase (content n))"

definition relevanceCompare :: "env \<Rightarrow> string \<Rightarrow> noteRecord \<Rightarrow> noteRecord \<Rightarrow> error + int" where
  "relevanceCompare E query a b =
     (case regexp_matches E (toLowerCase query) of
        None \<Rightarrow> Inl SyntaxError
      | Some matches \<Rightarrow> Inr (int (relevanceCount matches b) - int (relevanceCount matches a)))"

definition searchNotes ::
  "env \<Rightarrow> string option \<Rightarrow> string \<Rightarrow> filters \<Rightarrow> world \<Rightarrow> (error + noteRecord list) \<times> world" where
  "searchNotes E role query fl w =
     (case isAuthorized role (Some ''read'') of
        Inl e \<Rightarrow> (Inl e, w)
      | Inr False \<Rightarrow> (Inl InsufficientPermissions, w)
      | Inr True \<Rightarrow>
          (case getAllNotesInternal E w of
             (Inl e, w1) \<Rightarrow> (Inl e, w1)
           | (Inr allNotes, w1) \<Rightarrow>
               (case Array_filter (searchFilter E query fl) allNotes of
                  Inl e \<Rightarrow> (Inl e, w1)
                | Inr results \<Rightarrow> (Array_sort (relevanceCompare E query) results, w1))))"

section \<open>The notes controller (the second document of src/controllers/healthController.js)\<close>

text \<open>
  The agent the authentication middleware attaches to a request, the body of a request to
  create a note (a field is \<open>None\<close> when the body does not have it), and how a handler
  ends: with \<open>res.status(code).json(result)\<close>, with \<open>res.status(code).json({ error: message })\<close>,
  or by passing an error it caught to \<open>next\<close>.
\<close>

record agent =
  agent_role :: string
  agent_name :: "string option"

record createBody =
  body_title :: "string option"
  body_content :: "string option"
  body_tags :: "string list option"
  body_category :: "string option"

datatype 'a response =
    Json nat 'a
  | JsonError nat string
  | Next error

text \<open>
  The handler of \<open>POST /notes\<close>: \<open>tags\<close> and \<open>category\<close> default to \<open>[]\<close> and
  \<open>'topics'\<close>; when \<open>!title || !content\<close> the handler answers 400 and returns;
  otherwise it calls the model's \<open>createNote\<close> with the agent's role and
  \<open>req.agent.name || req.agent.role\<close> as the author.
\<close>

definition notesController_createNote ::
  "env \<Rightarrow> agent \<Rightarrow> createBody \<Rightarrow> world \<Rightarrow> created response \<times> world" where
  "notesController_createNote E ag body w =
     (let tagList = (case body_tags body of None \<Rightarrow> [] | Some ts \<Rightarrow> ts);
          category = (case body_category body of None \<Rightarrow> ''topics'' | Some c \<Rightarrow> c)
      in case (body_title body, body_content body) of
           (Some ttl, Some text) \<Rightarrow>
             if ttl = [] \<or> text = []
             then (JsonError 400 ''Title and content are required'', w)
             else (case createNote E (Some (agent_role ag)) ttl text tagList category
                          (orElse (agent_name ag) (agent_role ag)) w of
                     (Inl e, w') \<Rightarrow> (Next e, w')
                   | (Inr result, w') \<Rightarrow> (Json 201 result, w'))
         | _ \<Rightarrow> (JsonError 400 ''Title and content are required'', w))"

section \<open>Notions used to state the properties\<close>

text \<open>
  A plain name: one path segment that is a name (not empty, not \<open>.\<close> or \<open>..\<close>, without
  a separator).
\<close>

definition plainName :: "string \<Rightarrow> bool" where
  "plainName s = (s \<noteq> [] \<and> s \<noteq> ''.'' \<and> s \<noteq> ''..'' \<and> CHR ''/'' \<notin> set s)"

definition keptSeg :: "string \<Rightarrow> bool" where
  "keptSeg s = (s \<noteq> [] \<and> s \<noteq> ''.'')"

text \<open>What recursive \<open>mkdir\<close> does at the last segment of its path.\<close>

definition mkdirLeaf :: "node option \<Rightarrow> errno + node option" where
  "mkdirLeaf old =
     (case old of
        None \<Rightarrow> Inr (Some (Dir []))
      | Some (Dir es) \<Rightarrow> Inr (Some (Dir es))
      | Some (File c) \<Rightarrow> Inl EEXIST)"

text \<open>The segments of a path other than the first and the last.\<close>

definition innerSegments :: "string \<Rightarrow> string list" where
  "innerSegments p = butlast (tl (splitOn CHR ''/'' p))"

text \<open>
  The specification's path confinement: the resolved path is the resolved root or a
  descendant of it, segment by segment.
\<close>

definition withinRoot :: "string \<Rightarrow> string \<Rightarrow> string \<Rightarrow> bool" where
  "withinRoot wd root p =
     (take (length (resolveSegs wd root)) (resolveSegs wd p) = resolveSegs wd root)"

text \<open>
  The specification's relevance: the number of non-overlapping occurrences of the query as
  a substring, counted from the left, in the title plus that in the content, case ignored.
\<close>

function occurrences :: "string \<Rightarrow> string \<Rightarrow> nat" where
  "occurrences q [] = 0"
| "occurrences q (c # cs) =
     (if q \<noteq> [] \<and> startsWith (c # cs) q
      then Suc (occurrences q (drop (length q) (c # cs)))
      else occurrences q cs)"
  by pat_completeness auto
termination
  by (relation "measure (\<lambda>(q, s). length s)") auto

definition relevance :: "string \<Rightarrow> noteRecord \<Rightarrow> nat" where
  "relevance query n =
     occurrences (toLowerCase query) (toLowerCase (title n))
     + occurrences (toLowerCase query) (toLowerCase (content n))"

text \<open>
  The specification's slug rule: every maximal run of characters outside \<open>[a-z0-9]\<close>
  becomes one underscore (written at the last character of the run).
\<close>

fun collapseRuns :: "string \<Rightarrow> string" where
  "collapseRuns [] = []"
| "collapseRuns [c] = (if isSlugChar c then [c] else ''_'')"
| "collapseRuns (c # d # cs) =
     (if isSlugChar c then c # collapseRuns (d # cs)
      else if isSlugChar d then CHR ''_'' # collapseRuns (d # cs)
      else collapseRuns (d # cs))"

section \<open>Patterns of ordinary characters and the dot\<close>

text \<open>
  What \<open>new RegExp(source, 'g')\<close> is when the source has none of the syntax characters
  \<open>\ ^ $ * + ? ( ) [ ] { } |\<close>: a sequence of atoms, an ordinary character matching itself
  and the dot matching every character but a line terminator.  \<open>dotPattern\<close> is \<open>None\<close>
  for every other source, whether the platform accepts it as a pattern or not.
\<close>

datatype rx_atom = RxChar char | RxAny

definition rxSyntaxCharacters :: "char list" where
  "rxSyntaxCharacters =
     [CHR 0x5C, CHR ''^'', CHR ''$'', CHR ''*'', CHR ''+'', CHR ''?'', CHR ''('', CHR '')'',
      CHR ''['', CHR '']'', CHR ''{'', CHR ''}'', CHR ''|'']"

definition dotPattern :: "string \<Rightarrow> rx_atom list option" where
  "dotPattern source =
     (if \<exists>c \<in> set source. c \<in> set rxSyntaxCharacters then None
      else Some (map (\<lambda>c. if c = CHR ''.'' then RxAny else RxChar c) source))"

definition atomMatches :: "rx_atom \<Rightarrow> char \<Rightarrow> bool" where
  "atomMatches a c = (case a of RxChar d \<Rightarrow> c = d | RxAny \<Rightarrow> \<not> isLineTerminator c)"

definition matchesAt :: "rx_atom list \<Rightarrow> string \<Rightarrow> bool" where
  "matchesAt atoms s =
     (length atoms \<le> length s \<and> list_all2 atomMatches atoms (take (length atoms) s))"

text \<open>
  \<open>(s.match(re) || []).length\<close> for a global pattern: matches are taken from left to
  right, each search starting where the previous match ended; the empty pattern matches
  once at every position.
\<close>

function rxCount :: "rx_atom list \<Rightarrow> string \<Rightarrow> nat" where
  "rxCount atoms [] = (if atoms = [] then 1 else 0)"
| "rxCount atoms (c # cs) =
     (if atoms = [] then Suc (rxCount atoms cs)
      else if matchesAt atoms (c # cs)
           then Suc (rxCount atoms (drop (length atoms) (c # cs)))
           else rxCount atoms cs)"
  by pat_completeness auto
termination
  by (relation "measure (\<lambda>(atoms, s). length s)") auto

text \<open>
  An engine reads a source as such a pattern when it accepts it and counts these matches.
  Every ECMAScript engine does, for every source that is one.
\<close>

definition readsDotPattern :: "env \<Rightarrow> string \<Rightarrow> bool" where
  "readsDotPattern E source =
     (case dotPattern source of
        None \<Rightarrow> False
      | Some atoms \<Rightarrow> regexp_matches E source = Some (rxCount atoms))"

section \<open>An example environment\<close>

text \<open>
  A process started in \<open>/app\<close> with the default notes directory, on 2025-03-15.  What
  comes from outside the repository is given as the platform has it where the examples
  below use it, and only there:
  \<^item> js-yaml on the empty mapping, which it writes as \<open>{}\<close> and reads back, on the empty
    document, which it loads as \<open>undefined\<close>, and on three documents with a date: the
    quoted ones are loaded as strings, the unquoted one as the \<open>Date\<close> of
    2024-01-01T00:00:00Z.  On any other document the example lets \<open>yaml.load\<close> throw,
    and it writes every value as the empty mapping.
  \<^item> The comparison of operands of which one converts to \<open>NaN\<close>, as a date text like
    \<open>2025-01-01\<close> does when it is compared with a \<open>Date\<close>: it is false.  The
    example gives false for every pair of operands left to the platform.
  \<^item> Patterns of ordinary characters and the dot.  On a source with any other syntax
    character the example lets \<open>new RegExp\<close> throw, which the platform does for some of
    them only.
  No example below reads a document, compares operands or makes a pattern outside these
  cases, and none states the YAML text of a file that is written.
\<close>

definition exampleEnv :: env where
  "exampleEnv =
     \<lparr>NOTES_DIR = ''./notes'',
      today = ''2025-03-15'',
      yaml_load = (\<lambda>y. if y = ''{}'' then Inr (JObject [])
                        else if y = [] then Inr JUndefined
                        else if y = ''date: 2024-01-01''
                          then Inr (JObject [(''date'', JDate 1704067200000)])
                        else if y = ''date: '' @ [CHR 0x27] @ ''2024-01-01'' @ [CHR 0x27]
                          then Inr (JObject [(''date'', JString ''2024-01-01'')])
                        else if y = ''date: '' @ [CHR 0x27] @ ''2025-06-01'' @ [CHR 0x27]
                          then Inr (JObject [(''date'', JString ''2025-06-01'')])
                        else Inl ()),
      yaml_dump = (\<lambda>md. ''{}\<newline>''),
      lessThan_platform = (\<lambda>a b. Some False),
      regexp_matches = (\<lambda>source. map_option rxCount (dotPattern source))\<rparr>"

definition emptyWorld :: world where
  "emptyWorld = \<lparr>tree = Dir [(''app'', Dir [])], cwd = ''/app'', calls = []\<rparr>"

definition noFilters :: filters where
  "noFilters = \<lparr>filter_tags = None, filter_category = None, filter_dateRange = None\<rparr>"

text \<open>
  A notes directory with three notes without front matter, one of them in a directory
  below \<open>topics\<close>.
\<close>

definition sampleWorld :: world where
  "sampleWorld =
     \<lparr>tree = Dir [(''app'', Dir [(''notes'', Dir [(''topics'',
               Dir [(''b.md'', File ''..''),
                    (''a.md'', File ''abcd.''),
                    (''sub'', Dir [(''x.md'', File ''nested note'')])])])])],
      cwd = ''/app'',
      calls = []\<rparr>"

text \<open>A directory beside the notes directory whose name starts with the same letters.\<close>

definition backupWorld :: world where
  "backupWorld =
     \<lparr>tree = Dir [(''app'', Dir [(''notes'', Dir []),
                                 (''notes-backup'', Dir [(''secret.md'', File ''secret'')])])],
      cwd = ''/app'',
      calls = []\<rparr>"

text \<open>A notes directory with the note \<open>topics/x.md\<close> and an empty archive.\<close>

definition archiveWorld :: world where
  "archiveWorld =
     \<lparr>tree = Dir [(''app'', Dir [(''notes'',
               Dir [(''topics'', Dir [(''x.md'', File ''# X\<newline>\<newline>body'')]),
                    (''archive'', Dir [])])])],
      cwd = ''/app'',
      calls = []\<rparr>"

text \<open>
  A notes directory with four notes: one whose front matter has the unquoted date
  2024-01-01, two whose dates are quoted (2024-01-01 and 2025-06-01), and one without
  front matter.
\<close>

definition datedWorld :: world where
  "datedWorld =
     \<lparr>tree = Dir [(''app'', Dir [(''notes'', Dir [(''topics'',
               Dir [(''old.md'',
                       File ''---\<newline>date: 2024-01-01\<newline>---\<newline>\<newline># Old\<newline>\<newline>note''),
                    (''past.md'',
                       File (''---\<newline>date: '' @ [CHR 0x27] @ ''2024-01-01'' @ [CHR 0x27]
                             @ ''\<newline>---\<newline>\<newline># Past\<newline>\<newline>note'')),
                    (''new.md'',
                       File (''---\<newline>date: '' @ [CHR 0x27] @ ''2025-06-01'' @ [CHR 0x27]
                             @ ''\<newline>---\<newline>\<newline># New\<newline>\<newline>note'')),
                    (''plain.md'', File ''# Plain\<newline>\<newline>note'')])])])],
      cwd = ''/app'',
      calls = []\<rparr>"

section \<open>Lemmas about paths\<close>

lemma splitOn_nonempty [simp]: "splitOn d s \<noteq> []"
  by (induction s) (auto split: list.splits)

lemma splitOn_free: "d \<notin> set s \<Longrightarrow> splitOn d s = [s]"
  by (induction s) (auto split: list.splits)

lemma splitOn_append_sep: "splitOn d (a @ d # b) = splitOn d a @ splitOn d b"
  by (induction a) (auto split: list.splits)

lemma splitOn_elems_free: "x \<in> set (splitOn d s) \<Longrightarrow> d \<notin> set x"
  by (induction s arbitrary: x) (auto split: list.splits if_splits)

lemma joinSegs_Cons: "ys \<noteq> [] \<Longrightarrow> joinSegs (x # ys) = x @ CHR ''/'' # joinSegs ys"
  by (cases ys) auto

lemma splitOn_joinSegs:
  "xs \<noteq> [] \<Longrightarrow> \<forall>x \<in> set xs. CHR ''/'' \<notin> set x \<Longrightarrow> splitOn CHR ''/'' (joinSegs xs) = xs"
proof (induction xs)
  case Nil then show ?case by simp
next
  case (Cons x xs)
  show ?case
  proof (cases xs)
    case Nil
    with Cons.prems show ?thesis by (simp add: splitOn_free)
  next
    case (Cons y ys)
    with Cons.prems Cons.IH show ?thesis
      by (simp add: splitOn_append_sep splitOn_free)
  qed
qed

lemma joinSegs_append:
  "xs \<noteq> [] \<Longrightarrow> ys \<noteq> [] \<Longrightarrow> joinSegs (xs @ ys) = joinSegs xs @ CHR ''/'' # joinSegs ys"
  by (induction xs rule: joinSegs.induct) (auto simp: joinSegs_Cons)

lemma normalizeStep_plain: "plainName s \<Longrightarrow> normalizeStep b res s = res @ [s]"
  by (simp add: normalizeStep_def plainName_def)

lemma foldl_normalizeStep_plain:
  "\<forall>x \<in> set xs. plainName x \<Longrightarrow> foldl (normalizeStep b) res xs = res @ xs"
  by (induction xs arbitrary: res) (simp_all add: normalizeStep_plain)

lemma normalizeStep_kept:
  "\<forall>x \<in> set res. keptSeg x \<Longrightarrow> \<forall>x \<in> set (normalizeStep b res s). keptSeg x"
  by (auto simp: normalizeStep_def keptSeg_def dest: in_set_butlastD)

lemma foldl_normalizeStep_kept:
  "\<forall>x \<in> set res. keptSeg x \<Longrightarrow> \<forall>x \<in> set (foldl (normalizeStep b) res ys). keptSeg x"
proof (induction ys arbitrary: res)
  case Nil then show ?case by simp
next
  case (Cons y ys)
  show ?case using Cons.IH [OF normalizeStep_kept [OF Cons.prems]] by simp
qed

lemma normalizeStep_free:
  "\<forall>x \<in> set res. CHR ''/'' \<notin> set x \<Longrightarrow> CHR ''/'' \<notin> set s \<Longrightarrow>
   \<forall>x \<in> set (normalizeStep b res s). CHR ''/'' \<notin> set x"
  by (auto simp: normalizeStep_def dest: in_set_butlastD)

lemma foldl_normalizeStep_free:
  "\<forall>x \<in> set res. CHR ''/'' \<notin> set x \<Longrightarrow> \<forall>y \<in> set ys. CHR ''/'' \<notin> set y \<Longrightarrow>
   \<forall>x \<in> set (foldl (normalizeStep b) res ys). CHR ''/'' \<notin> set x"
proof (induction ys arbitrary: res)
  case Nil then show ?case by simp
next
  case (Cons y ys)
  have "\<forall>x \<in> set (normalizeStep b res y). CHR ''/'' \<notin> set x"
    by (rule normalizeStep_free) (use Cons.prems in simp_all)
  then show ?case using Cons.IH [of "normalizeStep b res y"] Cons.prems by simp
qed

lemma normalizeStep_no_dotdot:
  "\<forall>x \<in> set res. x \<noteq> ''..'' \<Longrightarrow> \<forall>x \<in> set (normalizeStep False res s). x \<noteq> ''..''"
  by (auto simp: normalizeStep_def dest: in_set_butlastD)

lemma foldl_normalizeStep_no_dotdot:
  "\<forall>x \<in> set res. x \<noteq> ''..'' \<Longrightarrow> \<forall>x \<in> set (foldl (normalizeStep False) res ys). x \<noteq> ''..''"
proof (induction ys arbitrary: res)
  case Nil then show ?case by simp
next
  case (Cons y ys)
  show ?case using Cons.IH [OF normalizeStep_no_dotdot [OF Cons.prems]] by simp
qed

text \<open>Segments of a resolved path are plain names.\<close>
lemma resolveSegs_plain: "\<forall>x \<in> set (resolveSegs wd p). plainName x"
proof -
  let ?ys = "splitOn CHR ''/'' (if isAbsolute p then p else wd @ ''/'' @ p)"
  have k: "\<forall>x \<in> set (foldl (normalizeStep False) [] ?ys). keptSeg x"
    by (rule foldl_normalizeStep_kept) simp
  have f: "\<forall>x \<in> set (foldl (normalizeStep False) [] ?ys). CHR ''/'' \<notin> set x"
    by (rule foldl_normalizeStep_free) (auto dest: splitOn_elems_free)
  have d: "\<forall>x \<in> set (foldl (normalizeStep False) [] ?ys). x \<noteq> ''..''"
    by (rule foldl_normalizeStep_no_dotdot) simp
  show ?thesis using k f d
    by (auto simp: resolveSegs_def normalizeString_def plainName_def keptSeg_def)
qed

text \<open>Normalizing a relative path first does not change where it resolves to.\<close>
lemma normalizeStep_commute:
  assumes "\<forall>x \<in> set R. keptSeg x"
  shows "foldl (normalizeStep False) C (normalizeStep True R y)
         = normalizeStep False (foldl (normalizeStep False) C R) y"
proof (cases "y = ''..'' \<and> R \<noteq> [] \<and> last R \<noteq> ''..''")
  case True
  then obtain R' p where R: "R = R' @ [p]" and p: "p \<noteq> ''..''"
    by (metis append_butlast_last_id)
  from assms R have "keptSeg p" by simp
  with p have pl: "p \<noteq> [] \<and> p \<noteq> ''.'' \<and> p \<noteq> ''..''" by (simp add: keptSeg_def)
  have "normalizeStep True R y = R'" using True R by (simp add: normalizeStep_def)
  moreover have "foldl (normalizeStep False) C R = foldl (normalizeStep False) C R' @ [p]"
    using pl by (simp add: R normalizeStep_def)
  ultimately show ?thesis using True pl by (simp add: normalizeStep_def)
next
  case False
  then show ?thesis by (auto simp: normalizeStep_def)
qed

lemma foldl_normalize_twice:
  assumes "\<forall>x \<in> set R. keptSeg x"
  shows "foldl (normalizeStep False) C (foldl (normalizeStep True) R ys)
         = foldl (normalizeStep False) (foldl (normalizeStep False) C R) ys"
  using assms
proof (induction ys arbitrary: R)
  case Nil then show ?case by simp
next
  case (Cons y ys)
  have k: "\<forall>x \<in> set (normalizeStep True R y). keptSeg x"
    by (rule normalizeStep_kept) (rule Cons.prems)
  show ?case
    using Cons.IH [OF k] normalizeStep_commute [OF Cons.prems, of C y] by simp
qed


lemma joinSegs_eq_Nil: "joinSegs xs = [] \<Longrightarrow> \<forall>x \<in> set xs. x = []"
proof (cases xs rule: joinSegs.cases)
  case 1 then show ?thesis by simp
next
  case (2 s) assume "joinSegs xs = []" with 2 show ?thesis by simp
next
  case (3 s t ss) assume "joinSegs xs = []" with 3 show ?thesis by simp
qed

lemma joinSegs_nonempty: "xs \<noteq> [] \<Longrightarrow> \<forall>x \<in> set xs. x \<noteq> [] \<Longrightarrow> joinSegs xs \<noteq> []"
  using joinSegs_eq_Nil [of xs] by (cases xs) auto

lemma last_joinSegs:
  "xs \<noteq> [] \<Longrightarrow> last xs \<noteq> [] \<Longrightarrow> last (joinSegs xs) = last (last xs)"
proof (induction xs rule: joinSegs.induct)
  case 1
  then show ?case by simp
next
  case (2 s)
  then show ?case by simp
next
  case (3 s t ss)
  have l: "last (t # ss) \<noteq> []" using "3.prems" by simp
  have ne: "joinSegs (t # ss) \<noteq> []"
  proof
    assume "joinSegs (t # ss) = []"
    then have "\<forall>x \<in> set (t # ss). x = []" by (rule joinSegs_eq_Nil)
    moreover have "last (t # ss) \<in> set (t # ss)" by (rule last_in_set) simp
    ultimately show False using l by blast
  qed
  have "last (joinSegs (s # t # ss)) = last (joinSegs (t # ss))"
    using ne by simp
  also have "\<dots> = last (last (t # ss))" using "3.IH" l by blast
  finally show ?case by simp
qed

lemma plain_nonempty: "\<forall>x \<in> set xs. plainName x \<Longrightarrow> \<forall>x \<in> set xs. x \<noteq> []"
  by (auto simp: plainName_def)

lemma plain_free: "\<forall>x \<in> set xs. plainName x \<Longrightarrow> \<forall>x \<in> set xs. CHR ''/'' \<notin> set x"
  by (auto simp: plainName_def)

lemma normalizeString_join:
  assumes "xs \<noteq> []" "\<forall>x \<in> set xs. plainName x"
  shows "normalizeString (ND @ CHR ''/'' # joinSegs xs) b = normalizeString ND b @ xs"
  using assms
  by (simp add: normalizeString_def splitOn_append_sep splitOn_joinSegs plain_free
        foldl_normalizeStep_plain)

lemma trailingSeparator_join:
  assumes "xs \<noteq> []" "\<forall>x \<in> set xs. plainName x"
  shows "\<not> trailingSeparator (pre @ joinSegs xs)"
proof -
  have l: "last xs \<in> set xs" using assms by simp
  then have pl: "plainName (last xs)" using assms by blast
  then have ne: "last xs \<noteq> []" by (simp add: plainName_def)
  have j: "joinSegs xs \<noteq> []" using assms by (simp add: joinSegs_nonempty plain_nonempty)
  have "last (joinSegs xs) = last (last xs)" using assms ne by (simp add: last_joinSegs)
  moreover have "last (last xs) \<in> set (last xs)" using ne by simp
  moreover have "CHR ''/'' \<notin> set (last xs)" using pl by (simp add: plainName_def)
  ultimately have "last (joinSegs xs) \<noteq> CHR ''/''" by metis
  with j show ?thesis by (simp add: trailingSeparator_def)
qed

lemma normalizeString_kept: "\<forall>x \<in> set (normalizeString p b). keptSeg x"
  unfolding normalizeString_def by (rule foldl_normalizeStep_kept) simp

lemma normalizeString_free: "\<forall>x \<in> set (normalizeString p b). CHR ''/'' \<notin> set x"
  unfolding normalizeString_def
  by (rule foldl_normalizeStep_free) (auto dest: splitOn_elems_free)

text \<open>The text of a joined path.\<close>
lemma path_join_plain:
  assumes "ND \<noteq> []" "xs \<noteq> []" "\<forall>x \<in> set xs. plainName x"
  shows "path_join [ND, joinSegs xs]
         = (if isAbsolute ND then ''/'' else []) @ joinSegs (normalizeString ND (\<not> isAbsolute ND) @ xs)"
proof -
  have j: "joinSegs xs \<noteq> []" using assms by (simp add: joinSegs_nonempty plain_nonempty)
  have abs: "isAbsolute (ND @ ''/'' @ joinSegs xs) = isAbsolute ND"
    using assms(1) by (cases ND) (simp_all add: isAbsolute_def)
  have tr: "\<not> trailingSeparator (ND @ ''/'' @ joinSegs xs)"
    using trailingSeparator_join [OF assms(2,3), of "ND @ ''/''"] by simp
  have "path_join [ND, joinSegs xs] = path_normalize (ND @ ''/'' @ joinSegs xs)"
    using assms(1) j by (simp add: path_join_def)
  moreover have "normalizeString (ND @ CHR ''/'' # joinSegs xs) (\<not> isAbsolute ND)
                 = normalizeString ND (\<not> isAbsolute ND) @ xs"
    by (rule normalizeString_join [OF assms(2,3)])
  ultimately show ?thesis
    using assms(2) abs tr by (simp add: path_normalize_def Let_def)
qed

lemma splitOn_slash_Cons: "splitOn CHR ''/'' (CHR ''/'' # s) = [] # splitOn CHR ''/'' s"
  by simp

lemma normalizeStep_empty [simp]: "normalizeStep b res [] = res"
  by (simp add: normalizeStep_def)

lemma resolveSegs_join:
  assumes "ND \<noteq> []" "xs \<noteq> []" "\<forall>x \<in> set xs. plainName x"
  shows "resolveSegs wd (path_join [ND, joinSegs xs]) = resolveSegs wd ND @ xs"
proof (cases "isAbsolute ND")
  case True
  let ?N = "normalizeString ND False"
  have pj: "path_join [ND, joinSegs xs] = ''/'' @ joinSegs (?N @ xs)"
    using path_join_plain [OF assms] True by simp
  have fr: "\<forall>x \<in> set (?N @ xs). CHR ''/'' \<notin> set x"
    using normalizeString_free [of ND False] plain_free [OF assms(3)] by auto
  have plN: "\<forall>x \<in> set ?N. plainName x"
    using resolveSegs_plain [of wd ND] True by (simp add: resolveSegs_def)
  have "resolveSegs wd (path_join [ND, joinSegs xs])
        = foldl (normalizeStep False) [] ([] # (?N @ xs))"
    using fr assms(2) by (simp add: pj resolveSegs_def isAbsolute_def normalizeString_def splitOn_joinSegs)
  also have "\<dots> = ?N @ xs"
    using plN assms(3) by (simp add: foldl_normalizeStep_plain)
  finally show ?thesis using True by (simp add: resolveSegs_def)
next
  case False
  let ?N = "normalizeString ND True"
  let ?C = "foldl (normalizeStep False) [] (splitOn CHR ''/'' wd)"
  have pj: "path_join [ND, joinSegs xs] = joinSegs (?N @ xs)"
    using path_join_plain [OF assms] False by simp
  have fr: "\<forall>x \<in> set (?N @ xs). CHR ''/'' \<notin> set x"
    using normalizeString_free [of ND True] plain_free [OF assms(3)] by auto
  have ne: "\<forall>x \<in> set (?N @ xs). x \<noteq> []"
    using normalizeString_kept [of ND True] plain_nonempty [OF assms(3)]
    by (auto simp: keptSeg_def)
  have nabs: "\<not> isAbsolute (joinSegs (?N @ xs))"
  proof -
    obtain y ys where c: "?N @ xs = y # ys" using assms(2) by (cases "?N @ xs") auto
    then have y: "y \<noteq> [] \<and> CHR ''/'' \<notin> set y" using fr ne by (metis list.set_intros(1))
    then obtain ch t where yt: "y = ch # t" by (cases y) auto
    have "hd (joinSegs (y # ys)) = ch" using yt by (cases ys) auto
    moreover have "joinSegs (y # ys) \<noteq> []" using yt by (cases ys) auto
    moreover have "ch \<noteq> CHR ''/''" using y yt by auto
    ultimately show ?thesis unfolding c by (cases "joinSegs (y # ys)") (auto simp: isAbsolute_def)
  qed
  have "resolveSegs wd (path_join [ND, joinSegs xs])
        = foldl (normalizeStep False) [] (splitOn CHR ''/'' wd @ (?N @ xs))"
    using fr assms(2) nabs
    by (simp add: pj resolveSegs_def normalizeString_def splitOn_append_sep splitOn_joinSegs)
  also have "\<dots> = foldl (normalizeStep False) (foldl (normalizeStep False) ?C ?N) xs"
    by simp
  also have "\<dots> = foldl (normalizeStep False) ?C ?N @ xs"
    using assms(3) by (simp add: foldl_normalizeStep_plain)
  also have "foldl (normalizeStep False) ?C ?N
             = foldl (normalizeStep False) ?C (splitOn CHR ''/'' ND)"
    unfolding normalizeString_def
    using foldl_normalize_twice [of "[]" ?C "splitOn CHR ''/'' ND"] by simp
  also have "\<dots> = resolveSegs wd ND"
    using False by (simp add: resolveSegs_def normalizeString_def splitOn_append_sep)
  finally show ?thesis .
qed

lemma joinSegs_single: "plainName x \<Longrightarrow> joinSegs [x] = x"
  by simp

lemma resolveSegs_join1:
  assumes "ND \<noteq> []" "plainName x"
  shows "resolveSegs wd (path_join [ND, x]) = resolveSegs wd ND @ [x]"
  using resolveSegs_join [of ND "[x]" wd] assms by simp

lemma path_join_nonempty: "path_join args \<noteq> []"
proof -
  have "joinSegs (normalizeString p b) = [] \<Longrightarrow> normalizeString p b = []" for p b
    using normalizeString_kept [of p b] joinSegs_eq_Nil [of "normalizeString p b"]
    by (cases "normalizeString p b") (auto simp: keptSeg_def)
  then show ?thesis
    by (auto simp: path_join_def path_normalize_def Let_def)
qed

lemma dropCommon_append: "dropCommon xs (xs @ ys) = ([], ys)"
  by (induction xs) auto

lemma path_relative_below:
  "resolveSegs wd q = resolveSegs wd p @ xs \<Longrightarrow> path_relative wd p q = joinSegs xs"
  by (simp add: path_relative_def dropCommon_append)

lemma startsWith_append: "startsWith (a @ b) a"
  by (simp add: startsWith_def)

lemma path_resolve_below:
  assumes "resolveSegs wd q = resolveSegs wd p @ xs"
  shows "startsWith (path_resolve wd q) (path_resolve wd p)"
proof (cases "resolveSegs wd p = [] \<or> xs = []")
  case True
  then show ?thesis using assms by (auto simp: path_resolve_def startsWith_def)
next
  case False
  then have "joinSegs (resolveSegs wd p @ xs) = joinSegs (resolveSegs wd p) @ CHR ''/'' # joinSegs xs"
    by (simp add: joinSegs_append)
  then show ?thesis using assms by (simp add: path_resolve_def startsWith_def)
qed

section \<open>Lemmas about the file-system tree\<close>

lemma map_of_putEntry: "map_of (putEntry k v es) k' = (if k' = k then Some v else map_of es k')"
  by (induction es) auto

lemma map_of_removeEntry: "map_of (removeEntry k es) k' = (if k' = k then None else map_of es k')"
  by (induction es) (auto simp: removeEntry_def)

lemma lookup_append:
  "lookup t (p @ q) = (case lookup t p of Inl e \<Rightarrow> Inl e | Inr n \<Rightarrow> lookup n q)"
proof (induction p arbitrary: t)
  case Nil then show ?case by simp
next
  case (Cons s p)
  show ?case
  proof (cases t)
    case (File c) then show ?thesis by simp
  next
    case (Dir es) then show ?thesis using Cons.IH by (simp split: option.splits)
  qed
qed

lemma lookup_snoc_Dir:
  "lookup t p = Inr (Dir es) \<Longrightarrow> lookup t (p @ [s]) = (case map_of es s of None \<Rightarrow> Inl ENOENT | Some n \<Rightarrow> Inr n)"
  by (simp add: lookup_append split: option.splits)

lemma lookup_snoc_parent:
  "lookup t (p @ [s]) = Inr n \<Longrightarrow> \<exists>es. lookup t p = Inr (Dir es) \<and> map_of es s = Some n"
proof -
  assume a: "lookup t (p @ [s]) = Inr n"
  then obtain m where m: "lookup t p = Inr m" and l: "lookup m [s] = Inr n"
    by (auto simp: lookup_append split: sum.splits)
  from l show ?thesis using m by (cases m) (auto split: option.splits)
qed

lemma alter_Cons:
  "q \<noteq> [] \<Longrightarrow> alter (a # q) f (Dir es) =
     (case map_of es a of
        None \<Rightarrow> Inl ENOENT
      | Some n \<Rightarrow> (case alter q f n of Inl e \<Rightarrow> Inl e | Inr n' \<Rightarrow> Inr (Dir (putEntry a n' es))))"
  by (cases q) (auto split: option.splits)

lemma alter_Cons_File: "alter (a # q) f (File c) = Inl ENOTDIR"
  by simp

lemma alter_succeeds:
  "lookup t p = Inr (Dir es) \<Longrightarrow> f (map_of es s) = Inr r \<Longrightarrow> \<exists>t'. alter (p @ [s]) f t = Inr t'"
proof (induction p arbitrary: t)
  case Nil
  then show ?case by (cases r) simp_all
next
  case (Cons a p)
  from Cons.prems(1) obtain es0 n where t: "t = Dir es0" and n: "map_of es0 a = Some n"
    and l: "lookup n p = Inr (Dir es)"
    by (cases t) (auto split: option.splits)
  from Cons.IH [OF l Cons.prems(2)] obtain n' where "alter (p @ [s]) f n = Inr n'" by blast
  then show ?case using t n by (simp add: alter_Cons)
qed

lemma alter_same:
  "alter (p @ [s]) f t = Inr t' \<Longrightarrow>
   \<exists>es. lookup t p = Inr (Dir es) \<and>
        ((f (map_of es s) = Inr None \<and> lookup t' (p @ [s]) = Inl ENOENT) \<or>
         (\<exists>n. f (map_of es s) = Inr (Some n) \<and> lookup t' (p @ [s]) = Inr n))"
proof (induction p arbitrary: t t')
  case Nil
  then obtain es where t: "t = Dir es" by (cases t) auto
  show ?case
  proof (cases "f (map_of es s)")
    case (Inl e) with Nil t show ?thesis by simp
  next
    case (Inr r)
    with Nil t show ?thesis
      by (cases r) (auto simp: map_of_putEntry map_of_removeEntry)
  qed
next
  case (Cons a p)
  from Cons.prems obtain es0 where t: "t = Dir es0" by (cases t) auto
  from Cons.prems t obtain n where n: "map_of es0 a = Some n"
    by (auto simp: alter_Cons split: option.splits)
  from Cons.prems t n obtain n' where a: "alter (p @ [s]) f n = Inr n'"
    and t': "t' = Dir (putEntry a n' es0)"
    by (auto simp: alter_Cons split: sum.splits)
  from Cons.IH [OF a] show ?case using t n t' by (simp add: map_of_putEntry)
qed

lemma alter_other:
  "alter (c @ x # a) f t = Inr t' \<Longrightarrow> x \<noteq> y \<Longrightarrow> lookup t' (c @ y # b) = lookup t (c @ y # b)"
proof (induction c arbitrary: t t')
  case Nil
  from Nil.prems obtain es where t: "t = Dir es" by (cases t) auto
  show ?case
  proof (cases a)
    case Nil
    with Nil.prems t show ?thesis
      by (auto simp: map_of_putEntry map_of_removeEntry split: sum.splits option.splits)
  next
    case (Cons a1 a2)
    with Nil.prems t show ?thesis
      by (auto simp: map_of_putEntry split: sum.splits option.splits)
  qed
next
  case (Cons z c)
  from Cons.prems obtain es0 where t: "t = Dir es0" by (cases t) auto
  from Cons.prems t obtain n where n: "map_of es0 z = Some n"
    by (auto simp: alter_Cons split: option.splits)
  from Cons.prems t n obtain n' where a: "alter (c @ x # a) f n = Inr n'"
    and t': "t' = Dir (putEntry z n' es0)"
    by (auto simp: alter_Cons split: sum.splits)
  from Cons.IH [OF a Cons.prems(2)] show ?case using t n t' by (simp add: map_of_putEntry)
qed

text \<open>Writing a file puts it there.\<close>
lemma alter_writeAt:
  "alter q (writeAt tr c) t = Inr t' \<Longrightarrow> lookup t' q = Inr (File c)"
proof (induction q "writeAt tr c" t arbitrary: t' rule: alter.induct)
  case (1 n)
  then show ?case
    by (cases n) (auto simp: writeAt_def split: if_splits)
next
  case (2 s ss c')
  then show ?case by simp
next
  case (3 s es)
  then show ?case
    by (auto simp: writeAt_def map_of_putEntry split: option.splits node.splits if_splits)
next
  case (4 s t ss es)
  then show ?case
    by (auto simp: map_of_putEntry split: option.splits sum.splits)
qed

lemma putEntry_same: "map_of es k = Some v \<Longrightarrow> putEntry k v es = es"
  by (induction es) (auto split: if_splits)

lemma mkdirp_existing: "lookup t p = Inr (Dir es) \<Longrightarrow> mkdirp p t = Inr t"
proof (induction p arbitrary: t)
  case Nil then show ?case by simp
next
  case (Cons a p)
  from Cons.prems obtain es0 n where t: "t = Dir es0" and n: "map_of es0 a = Some n"
    and l: "lookup n p = Inr (Dir es)"
    by (cases t) (auto split: option.splits)
  from Cons.IH [OF l] show ?case using t n by (simp add: putEntry_same)
qed

lemma mkdirp_as_alter:
  "lookup t p = Inr (Dir es) \<Longrightarrow> mkdirp (p @ [s]) t = alter (p @ [s]) mkdirLeaf t"
proof (induction p arbitrary: t)
  case Nil
  then show ?case
    by (auto simp: mkdirLeaf_def putEntry_same split: option.splits node.splits)
next
  case (Cons a p)
  from Cons.prems obtain es0 n where t: "t = Dir es0" and n: "map_of es0 a = Some n"
    and l: "lookup n p = Inr (Dir es)"
    by (cases t) (auto split: option.splits)
  from Cons.IH [OF l] show ?case using t n by (simp add: alter_Cons)
qed

section \<open>Lemmas about strings\<close>

lemma hd_splitOn: "hd (splitOn d s) = takeWhile (\<lambda>c. c \<noteq> d) s"
  by (induction s) (auto split: list.splits)

lemma length_splitOn: "d \<in> set s \<longleftrightarrow> 2 \<le> length (splitOn d s)"
proof (induction s)
  case Nil then show ?case by simp
next
  case (Cons c s)
  have "length (splitOn d s) \<ge> 1" using splitOn_nonempty [of d s] by (cases "splitOn d s") auto
  then show ?case using Cons by (auto split: list.splits)
qed

lemma startsWith_Cons: "startsWith (c # s) (d # p) \<longleftrightarrow> c = d \<and> startsWith s p"
  by (auto simp: startsWith_def)

lemma startsWith_Nil [simp]: "startsWith s []"
  by (simp add: startsWith_def)

lemma startsWith_iff: "startsWith s p \<longleftrightarrow> (\<exists>r. s = p @ r)"
  unfolding startsWith_def
  by (metis append_eq_conv_conj append_take_drop_id)

text \<open>A separator-free word followed by the separator is the first segment.\<close>
lemma startsWith_segment:
  assumes "d \<notin> set c"
  shows "startsWith s (c @ [d]) \<longleftrightarrow> hd (splitOn d s) = c \<and> 2 \<le> length (splitOn d s)"
proof
  assume "startsWith s (c @ [d])"
  then obtain r where s: "s = c @ d # r" by (auto simp: startsWith_iff)
  have "takeWhile (\<lambda>x. x \<noteq> d) (c @ d # r) = c"
    using assms by (induction c) auto
  moreover have "d \<in> set s" using s by simp
  ultimately show "hd (splitOn d s) = c \<and> 2 \<le> length (splitOn d s)"
    using s by (simp add: hd_splitOn flip: length_splitOn)
next
  assume a: "hd (splitOn d s) = c \<and> 2 \<le> length (splitOn d s)"
  then have t: "takeWhile (\<lambda>x. x \<noteq> d) s = c" and m: "d \<in> set s"
    by (simp_all add: hd_splitOn length_splitOn)
  have "s = takeWhile (\<lambda>x. x \<noteq> d) s @ dropWhile (\<lambda>x. x \<noteq> d) s" by simp
  moreover have "dropWhile (\<lambda>x. x \<noteq> d) s \<noteq> []" using m by (simp add: dropWhile_eq_Nil_conv)
  moreover have "hd (dropWhile (\<lambda>x. x \<noteq> d) s) = d"
    using m hd_dropWhile [of "\<lambda>x. x \<noteq> d" s] by (auto simp: dropWhile_eq_Nil_conv)
  ultimately obtain r where "s = c @ d # r"
    using t by (metis list.collapse)
  then show "startsWith s (c @ [d])" by (auto simp: startsWith_iff)
qed

lemma butlast_as_hd:
  "S \<noteq> [] \<Longrightarrow> x \<in> set (butlast S) \<longleftrightarrow> (hd S = x \<and> 2 \<le> length S) \<or> x \<in> set (butlast (tl S))"
  by (cases S; cases "tl S") (auto split: if_splits)

text \<open>\<open>/c/\<close> occurs in a path exactly when \<open>c\<close> is one of its inner segments.\<close>
lemma str_includes_segment:
  assumes "CHR ''/'' \<notin> set c"
  shows "str_includes p (''/'' @ c @ ''/'') \<longleftrightarrow> c \<in> set (innerSegments p)"
proof (induction p)
  case Nil
  then show ?case by (simp add: innerSegments_def)
next
  case (Cons ch cs)
  show ?case
  proof (cases "ch = CHR ''/''")
    case True
    have "startsWith (ch # cs) (''/'' @ c @ ''/'') \<longleftrightarrow> startsWith cs (c @ ''/'')"
      using True by (simp add: startsWith_Cons)
    also have "\<dots> \<longleftrightarrow> hd (splitOn CHR ''/'' cs) = c \<and> 2 \<le> length (splitOn CHR ''/'' cs)"
      using startsWith_segment [OF assms, of cs] by simp
    finally have sw: "startsWith (ch # cs) (''/'' @ c @ ''/'')
        \<longleftrightarrow> hd (splitOn CHR ''/'' cs) = c \<and> 2 \<le> length (splitOn CHR ''/'' cs)" .
    have "innerSegments (ch # cs) = butlast (splitOn CHR ''/'' cs)"
      using True by (simp add: innerSegments_def)
    then show ?thesis
      using Cons.IH sw butlast_as_hd [of "splitOn CHR ''/'' cs" c]
      by (auto simp: innerSegments_def)
  next
    case False
    have "\<not> startsWith (ch # cs) (''/'' @ c @ ''/'')"
      using False by (simp add: startsWith_Cons)
    moreover have "innerSegments (ch # cs) = innerSegments cs"
      using False by (auto simp: innerSegments_def split: list.splits)
    ultimately show ?thesis using Cons.IH by simp
  qed
qed

section \<open>Lemmas about values and callbacks\<close>

lemma getProperty_error: "getProperty v k = Inl e \<Longrightarrow> e = TypeError"
  by (auto simp: getProperty_def split: js_value.splits)

lemma getProperty_object [simp]:
  "getProperty (JObject kvs) k = Inr (case map_of kvs k of Some x \<Rightarrow> x | None \<Rightarrow> JUndefined)"
  by (simp add: getProperty_def)

lemma js_lessThan_error: "js_lessThan E a b = Inl e \<Longrightarrow> e = TypeError"
  by (cases a; cases b) (auto simp: js_lessThan_def split: if_splits option.splits)

lemma js_lessThan_strings [simp]: "js_lessThan E (JString x) (JString y) = Inr (x < y)"
  by (simp add: js_lessThan_def)

lemma js_lessThan_undefined [simp]:
  "js_lessThan E JUndefined (JString y) = Inr False"
  "js_lessThan E (JString x) JUndefined = Inr False"
  by (simp_all add: js_lessThan_def simpleOperand_def)

lemma includesMethod_error: "includesMethod v t = Inl e \<Longrightarrow> e = TypeError"
  by (auto simp: includesMethod_def split: js_value.splits)

lemma Array_some_error: "Array_some p xs = Inl e \<Longrightarrow> \<exists>x. p x = Inl e"
  by (induction xs) (auto split: sum.splits if_splits)

lemma Array_filter_error: "Array_filter p xs = Inl e \<Longrightarrow> \<exists>x. p x = Inl e"
  by (induction xs) (auto split: sum.splits)

lemma Array_filter_result:
  "Array_filter p xs = Inr ys \<Longrightarrow> ys = filter (\<lambda>x. p x = Inr True) xs"
  by (induction xs arbitrary: ys) (auto split: sum.splits)

lemma Array_filter_total:
  "(\<And>x. x \<in> set xs \<Longrightarrow> \<exists>b. p x = Inr b) \<Longrightarrow> \<exists>ys. Array_filter p xs = Inr ys"
  by (induction xs) (fastforce split: sum.splits)+

lemma insertSorted_error: "insertSorted cmp x ys = Inl e \<Longrightarrow> \<exists>y. cmp x y = Inl e"
  by (induction ys) (auto split: sum.splits if_splits)

lemma Array_sort_error: "Array_sort cmp xs = Inl e \<Longrightarrow> \<exists>x y. cmp x y = Inl e"
proof (induction xs)
  case Nil
  then show ?case by simp
next
  case (Cons a xs)
  show ?case
  proof (cases "Array_sort cmp xs")
    case (Inl e')
    with Cons.prems have "e' = e" by simp
    with Inl Cons.IH show ?thesis by simp
  next
    case (Inr ys)
    with Cons.prems have "insertSorted cmp a ys = Inl e" by simp
    from insertSorted_error [OF this] show ?thesis by blast
  qed
qed

lemma set_insertSorted: "insertSorted cmp x ys = Inr zs \<Longrightarrow> set zs = insert x (set ys)"
proof (induction ys arbitrary: zs)
  case Nil
  then show ?case by auto
next
  case (Cons y ys)
  from Cons.prems obtain c where c: "cmp x y = Inr c"
    by (cases "cmp x y") auto
  show ?case
  proof (cases "c \<le> 0")
    case True
    with Cons.prems c show ?thesis by auto
  next
    case False
    with Cons.prems c obtain zs' where z: "insertSorted cmp x ys = Inr zs'" and "zs = y # zs'"
      by (cases "insertSorted cmp x ys") auto
    with Cons.IH [OF z] show ?thesis by auto
  qed
qed

lemma set_Array_sort: "Array_sort cmp xs = Inr ys \<Longrightarrow> set ys = set xs"
  by (induction xs arbitrary: ys) (auto split: sum.splits dest: set_insertSorted)

lemma dateCompare_error: "dateCompare E a b = Inl e \<Longrightarrow> e = TypeError"
  by (auto simp: dateCompare_def split: sum.splits if_splits
           dest: getProperty_error js_lessThan_error)

lemma hasAnyTag_error: "hasAnyTag ts n = Inl e \<Longrightarrow> e = TypeError"
  by (auto simp: hasAnyTag_def hasTag_def split: sum.splits if_splits
           dest!: Array_some_error dest: getProperty_error includesMethod_error)

lemma passesTags_error: "passesTags fl n = Inl e \<Longrightarrow> e = TypeError"
  by (auto simp: passesTags_def split: option.splits sum.splits if_splits
           dest!: Array_some_error dest: getProperty_error includesMethod_error)

lemma passesDateRange_error: "passesDateRange E fl n = Inl e \<Longrightarrow> e = TypeError"
  by (auto simp: passesDateRange_def split: option.splits sum.splits if_splits prod.splits
           dest: getProperty_error js_lessThan_error)

lemma searchFilter_error: "searchFilter E q fl n = Inl e \<Longrightarrow> e = TypeError"
  by (auto simp: searchFilter_def split: sum.splits if_splits
           dest: passesTags_error passesDateRange_error)

lemma relevanceCompare_error: "relevanceCompare E q a b = Inl e \<Longrightarrow> e = SyntaxError"
  by (auto simp: relevanceCompare_def split: option.splits)

section \<open>Properties of the authorization check\<close>

lemma analytics_read:
  "isAuthorized (Some ''analytics'') (Some ''read'') = Inr True"
  by (simp add: isAuthorized_def PERMISSIONS_def)

lemma isAuthorized_deny_by_default:
  "role \<notin> {''admin'', ''research'', ''writing'', ''analytics''} \<Longrightarrow>
   role \<notin> set Object_prototype_members \<Longrightarrow>
   isAuthorized (Some role) operation = Inr False"
  by (simp add: isAuthorized_def PERMISSIONS_def split: option.splits)

lemma isAuthorized_missing:
  "falsy role \<or> falsy operation \<Longrightarrow> isAuthorized role operation = Inr False"
  by (auto simp add: isAuthorized_def falsy_def split: option.splits)

text \<open>
  C10.  \<open>isAuthorized\<close> is meant to deny by default and to return a boolean, and does so for
  every role that is no property name of \<open>Object.prototype\<close>
  (\<open>isAuthorized_deny_by_default\<close>, \<open>isAuthorized_missing\<close>).  For a role that is one,
  such as \<open>constructor\<close>, the table lookup finds the inherited member, the guard
  \<open>if (!permissions)\<close> lets it through, and the call of its missing \<open>includes\<close> method
  throws a TypeError instead of returning \<open>false\<close>.
\<close>

theorem isAuthorized_prototype_member_throws:
  "isAuthorized (Some ''constructor'') (Some ''read'') = Inl TypeError"
  by (simp add: isAuthorized_def PERMISSIONS_def Object_prototype_members_def)

subsection \<open>The permission check comes first\<close>

lemma ensureNotesDirectory_not_denied:
  "fst (ensureNotesDirectory E w) \<noteq> Inl InsufficientPermissions"
  by (simp add: ensureNotesDirectory_def split: prod.splits sum.splits)

lemma getAllNotesInternal_not_denied:
  "fst (getAllNotesInternal E w) \<noteq> Inl InsufficientPermissions"
  using ensureNotesDirectory_not_denied [of E w]
  by (auto simp add: getAllNotesInternal_def split: prod.splits sum.splits node.splits
           dest!: Array_sort_error dest: dateCompare_error)

lemma catchENOENT_not_denied:
  "fst (catchENOENT e w) \<noteq> Inl InsufficientPermissions"
  by (simp add: catchENOENT_def)

lemma getAllNotes_not_denied:
  "fst (getAllNotes E (Some ''analytics'') t c k w) \<noteq> Inl InsufficientPermissions"
proof -
  obtain r1 w1 where e: "ensureNotesDirectory E w = (r1, w1)"
    by (cases "ensureNotesDirectory E w")
  obtain r2 w2 where g: "getAllNotesInternal E w1 = (r2, w2)"
    by (cases "getAllNotesInternal E w1")
  from e ensureNotesDirectory_not_denied [of E w]
  have r1: "r1 \<noteq> Inl InsufficientPermissions" by simp
  from g getAllNotesInternal_not_denied [of E w1]
  have r2: "r2 \<noteq> Inl InsufficientPermissions" by simp
  have f: "Array_filter (hasAnyTag ts) ns \<noteq> Inl InsufficientPermissions" for ts ns
    by (auto dest!: Array_filter_error dest: hasAnyTag_error)
  show ?thesis
    using r1 r2 f
    by (cases r1; cases r2)
       (auto simp add: getAllNotes_def analytics_read e g Let_def
             split: option.splits sum.splits)
qed

lemma getNoteById_not_denied:
  "fst (getNoteById E (Some ''analytics'') i w) \<noteq> Inl InsufficientPermissions"
  using catchENOENT_not_denied
  by (auto simp add: getNoteById_def analytics_read Let_def split: prod.splits sum.splits)

lemma searchNotes_not_denied:
  "fst (searchNotes E (Some ''analytics'') q fl w) \<noteq> Inl InsufficientPermissions"
proof -
  obtain r2 w2 where g: "getAllNotesInternal E w = (r2, w2)"
    by (cases "getAllNotesInternal E w")
  from g getAllNotesInternal_not_denied [of E w]
  have r2: "r2 \<noteq> Inl InsufficientPermissions" by simp
  have f: "Array_filter (searchFilter E q fl) ns \<noteq> Inl InsufficientPermissions" for ns
    by (auto dest!: Array_filter_error dest: searchFilter_error)
  have s: "Array_sort (relevanceCompare E q) ns \<noteq> Inl InsufficientPermissions" for ns
    by (auto dest!: Array_sort_error dest: relevanceCompare_error)
  show ?thesis
    using r2 f s
    by (cases r2) (auto simp add: searchNotes_def analytics_read g split: sum.splits)
qed

text \<open>
  C3.  The role \<open>analytics\<close> is granted \<open>read\<close> and \<open>search\<close>, so listing,
  reading and searching never end with the permission error, whatever their arguments and
  the state of the file system.  Creating, updating, appending and deleting end with the
  permission error and leave the state as it was, the record of file-system calls
  included: the check comes before any file-system access.
\<close>

theorem analytics_permission_matrix:
  "isAuthorized (Some ''analytics'') (Some ''read'') = Inr True
   \<and> isAuthorized (Some ''analytics'') (Some ''search'') = Inr True
   \<and> fst (getAllNotes E (Some ''analytics'') tagsArg category keyword w)
       \<noteq> Inl InsufficientPermissions
   \<and> fst (getNoteById E (Some ''analytics'') noteId w) \<noteq> Inl InsufficientPermissions
   \<and> fst (searchNotes E (Some ''analytics'') query fl w) \<noteq> Inl InsufficientPermissions
   \<and> createNote E (Some ''analytics'') ttl body tagList cat authorName w
       = (Inl InsufficientPermissions, w)
   \<and> updateNote E (Some ''analytics'') noteId ttl' body' tagList' w
       = (Inl InsufficientPermissions, w)
   \<and> appendToNote E (Some ''analytics'') noteId body w = (Inl InsufficientPermissions, w)
   \<and> deleteNote E (Some ''analytics'') noteId shouldArchive w
       = (Inl InsufficientPermissions, w)"
  by (simp add: getAllNotes_not_denied getNoteById_not_denied searchNotes_not_denied
        createNote_def updateNote_def appendToNote_def deleteNote_def
        isAuthorized_def PERMISSIONS_def)

theorem analytics_permission_matrix_witness:
  "fst (getNoteById exampleEnv (Some ''analytics'') ''topics/x.md'' emptyWorld)
     \<noteq> Inl InsufficientPermissions
   \<and> createNote exampleEnv (Some ''analytics'') ''T'' ''body'' [''q''] ''topics'' ''bob'' emptyWorld
       = (Inl InsufficientPermissions, emptyWorld)
   \<and> deleteNote exampleEnv (Some ''analytics'') ''topics/x.md'' True emptyWorld
       = (Inl InsufficientPermissions, emptyWorld)"
  using analytics_permission_matrix
    [of exampleEnv None None None emptyWorld "''topics/x.md''" "''x''" noFilters
        "''T''" "''body''" "[''q'']" "''topics''" "''bob''" None None None True]
  by simp

section \<open>What a search and a listing retain\<close>

lemma searchFilter_True:
  "searchFilter E q fl n = Inr True \<longleftrightarrow>
     matchesQuery q n \<and> passesTags fl n = Inr True \<and> passesCategory fl n \<and>
     passesDateRange E fl n = Inr True"
  by (auto simp: searchFilter_def split: sum.splits)

lemma searchNotes_retained:
  assumes "searchNotes E role query fl w = (Inr rs, w')"
  shows "\<exists>all. fst (getAllNotesInternal E w) = Inr all
           \<and> set rs = {n \<in> set all. searchFilter E query fl n = Inr True}"
proof -
  obtain r1 w1 where g: "getAllNotesInternal E w = (r1, w1)"
    by (cases "getAllNotesInternal E w")
  from assms have auth: "isAuthorized role (Some ''read'') = Inr True"
    by (auto simp: searchNotes_def split: sum.splits bool.splits)
  from assms auth g obtain all where r1: "r1 = Inr all"
    by (cases r1) (auto simp: searchNotes_def)
  from assms auth g r1 obtain results
    where f: "Array_filter (searchFilter E query fl) all = Inr results"
      and s: "Array_sort (relevanceCompare E query) results = Inr rs"
    by (cases "Array_filter (searchFilter E query fl) all") (auto simp: searchNotes_def)
  from Array_filter_result [OF f] set_Array_sort [OF s]
  have "set rs = {n \<in> set all. searchFilter E query fl n = Inr True}" by auto
  then show ?thesis using g r1 by auto
qed

lemma getAllNotes_retained:
  assumes "getAllNotes E role tagsArg category keyword w = (Inr rs, w')"
  shows "\<exists>all. fst (getAllNotesInternal E (snd (ensureNotesDirectory E w))) = Inr all
           \<and> rs = filter (\<lambda>n. case keyword of None \<Rightarrow> True
                                | Some k \<Rightarrow> k = [] \<or> matchesKeyword k n)
                   (filter (\<lambda>n. case category of None \<Rightarrow> True
                                 | Some c \<Rightarrow> c = [] \<or> inCategory c n)
                     (filter (\<lambda>n. case tagsArg of None \<Rightarrow> True
                                   | Some t \<Rightarrow>
                                       t = [] \<or> hasAnyTag (splitOn CHR '','' t) n = Inr True)
                        all))"
proof -
  obtain r0 w0 where e: "ensureNotesDirectory E w = (r0, w0)"
    by (cases "ensureNotesDirectory E w")
  obtain r1 w1 where g: "getAllNotesInternal E w0 = (r1, w1)"
    by (cases "getAllNotesInternal E w0")
  from assms have auth: "isAuthorized role (Some ''read'') = Inr True"
    by (auto simp: getAllNotes_def split: sum.splits bool.splits)
  from assms auth e obtain u where r0: "r0 = Inr u"
    by (cases r0) (auto simp: getAllNotes_def)
  from assms auth e r0 g obtain all where r1: "r1 = Inr all"
    by (cases r1) (auto simp: getAllNotes_def)
  let ?byTags = "case tagsArg of
                   None \<Rightarrow> Inr all
                 | Some t \<Rightarrow>
                     if t = [] then Inr all
                     else Array_filter (hasAnyTag (splitOn CHR '','' t)) all"
  from assms auth e r0 g r1 obtain byTags where bt: "?byTags = Inr byTags"
    by (cases ?byTags) (auto simp: getAllNotes_def)
  have t: "byTags = filter (\<lambda>n. case tagsArg of None \<Rightarrow> True
                                   | Some t \<Rightarrow>
                                       t = [] \<or> hasAnyTag (splitOn CHR '','' t) n = Inr True)
                      all"
    using bt by (auto split: option.splits if_splits dest: Array_filter_result)
  have "rs = filter (\<lambda>n. case keyword of None \<Rightarrow> True
                                | Some k \<Rightarrow> k = [] \<or> matchesKeyword k n)
                   (filter (\<lambda>n. case category of None \<Rightarrow> True
                                 | Some c \<Rightarrow> c = [] \<or> inCategory c n)
                      byTags)"
    using assms auth e r0 g r1 bt
    by (cases category; cases keyword) (auto simp: getAllNotes_def Let_def)
  then show ?thesis using e g r1 t by simp
qed

section \<open>Lemmas about the file-system calls\<close>

lemma ensureNotesDirectory_error:
  "ensureNotesDirectory E w = (Inl e, w') \<Longrightarrow> \<exists>x. e = FsError x"
  by (auto simp: ensureNotesDirectory_def split: prod.splits sum.splits)

lemma logCall_fields [simp]:
  "tree (logCall c w) = tree w" "cwd (logCall c w) = cwd w"
  by (simp_all add: logCall_def)

lemma fs_access_state: "fs_access p w = (r, w') \<Longrightarrow> tree w' = tree w \<and> cwd w' = cwd w"
  by (auto simp: fs_access_def split: sum.splits)

lemma fs_mkdir_cwd: "fs_mkdir p w = (r, w') \<Longrightarrow> cwd w' = cwd w"
  by (auto simp: fs_mkdir_def split: sum.splits if_splits)

lemma ensureNotesDirectory_cwd: "ensureNotesDirectory E w = (r, w') \<Longrightarrow> cwd w' = cwd w"
  by (auto simp: ensureNotesDirectory_def split: prod.splits sum.splits
        dest!: fs_access_state fs_mkdir_cwd)

lemma fs_writeFile_written:
  assumes "fs_writeFile p c w = (Inr u, w')"
  shows "lookup (tree w') (resolveSegs (cwd w') p) = Inr (File c) \<and> cwd w' = cwd w"
proof -
  from assms obtain t where a: "alter (resolveSegs (cwd w) p) (writeAt (trailingSeparator p) c) (tree w) = Inr t"
    and w': "w' = logCall (WriteFile p c) (w\<lparr>tree := t\<rparr>)"
    by (auto simp: fs_writeFile_def split: if_splits sum.splits)
  from alter_writeAt [OF a] w' show ?thesis by simp
qed

section \<open>Path confinement\<close>

lemma insideNotesDir_of_withinRoot:
  assumes "withinRoot (cwd w) (NOTES_DIR E) p"
  shows "insideNotesDir E w p"
proof -
  let ?R = "resolveSegs (cwd w) (NOTES_DIR E)"
  let ?P = "resolveSegs (cwd w) p"
  have "?P = ?R @ drop (length ?R) ?P"
    using assms append_take_drop_id [of "length ?R" ?P] by (simp add: withinRoot_def)
  then show ?thesis
    unfolding insideNotesDir_def by (rule path_resolve_below)
qed

lemma getNoteById_rejects_outside:
  "isAuthorized role (Some ''read'') = Inr True \<Longrightarrow>
   \<not> insideNotesDir E w (path_join [NOTES_DIR E, noteId]) \<Longrightarrow>
   getNoteById E role noteId w = (Inl InvalidNotePath, w)"
  by (simp add: getNoteById_def)

text \<open>
  C2.  The check compares the text of the two resolved paths with \<open>startsWith\<close>.  Every
  path inside the root passes it (\<open>insideNotesDir_of_withinRoot\<close>) and every path that
  fails it is rejected before the file system is touched
  (\<open>getNoteById_rejects_outside\<close>).  But a path outside the root whose text starts with
  the text of the root passes too: with the root \<open>/app/notes\<close>, the id
  \<open>../notes-backup/secret.md\<close> resolves to \<open>/app/notes-backup/secret.md\<close>, which is
  read by \<open>getNoteById\<close> and removed by \<open>deleteNote\<close>.
\<close>

theorem path_check_accepts_sibling_directory:
  "\<not> withinRoot (cwd backupWorld) (NOTES_DIR exampleEnv)
        (path_join [NOTES_DIR exampleEnv, ''../notes-backup/secret.md''])
   \<and> getNoteById exampleEnv (Some ''admin'') ''../notes-backup/secret.md'' backupWorld
       = (Inr (Some \<lparr>note_id = ''../notes-backup/secret.md'',
                      note_path = ''notes-backup/secret.md'',
                      title = ''secret'', content = ''secret'',
                      metadata = JObject []\<rparr>),
          \<lparr>tree = tree backupWorld, cwd = ''/app'',
           calls = [ReadFile ''notes-backup/secret.md'']\<rparr>)
   \<and> deleteNote exampleEnv (Some ''admin'') ''../notes-backup/secret.md'' False backupWorld
       = (Inr (Some \<lparr>deleted_message = ''Note deleted'', deleted_id = None\<rparr>),
          \<lparr>tree = Dir [(''app'', Dir [(''notes'', Dir []), (''notes-backup'', Dir [])])],
           cwd = ''/app'',
           calls = [Access ''notes-backup/secret.md'', Unlink ''notes-backup/secret.md'']\<rparr>)"
  by code_simp

section \<open>Search\<close>

text \<open>
  C6.  The ranking counts the matches of the query read as a regular expression, not the
  occurrences of the query as text.  For the query \<open>.\<close> the listing has note \<open>b\<close>
  (two occurrences) before note \<open>a\<close> (one occurrence); the pattern \<open>.\<close> matches every
  character, so the search counts 6 for \<open>a\<close> and 3 for \<open>b\<close> and returns \<open>a\<close> first,
  against the order by relevance.  For a query without pattern syntax the two counts agree
  and the ranking is the stable descending one (\<open>searchNotes_ranking_literal\<close> below).
\<close>

theorem searchNotes_ranks_by_pattern_matches:
  "fst (searchNotes exampleEnv (Some ''admin'') ''.'' noFilters sampleWorld)
     = Inr [\<lparr>note_id = ''topics/a.md'', note_path = ''notes/topics/a.md'', title = ''a'',
              content = ''abcd.'',
              metadata = JObject []\<rparr>,
            \<lparr>note_id = ''topics/b.md'', note_path = ''notes/topics/b.md'', title = ''b'',
              content = ''..'',
              metadata = JObject []\<rparr>]
   \<and> fst (getAllNotesInternal exampleEnv sampleWorld)
     = Inr [\<lparr>note_id = ''topics/b.md'', note_path = ''notes/topics/b.md'', title = ''b'',
              content = ''..'',
              metadata = JObject []\<rparr>,
            \<lparr>note_id = ''topics/a.md'', note_path = ''notes/topics/a.md'', title = ''a'',
              content = ''abcd.'',
              metadata = JObject []\<rparr>,
            \<lparr>note_id = ''topics/sub/x.md'', note_path = ''notes/topics/sub/x.md'',
              title = ''x'', content = ''nested note'',
              metadata = JObject []\<rparr>]
   \<and> relevance ''.'' \<lparr>note_id = ''topics/a.md'', note_path = ''notes/topics/a.md'',
                        title = ''a'', content = ''abcd.'',
                        metadata = JObject []\<rparr> = 1
   \<and> relevance ''.'' \<lparr>note_id = ''topics/b.md'', note_path = ''notes/topics/b.md'',
                        title = ''b'', content = ''..'',
                        metadata = JObject []\<rparr> = 2"
  by code_simp

subsection \<open>The date range\<close>

lemma passesDateRange_string:
  assumes "getProperty (metadata n) ''date'' = Inr (JString d)"
    and "filter_dateRange fl = Some (start, end)"
  shows "passesDateRange E fl n
           = Inr ((\<forall>s. start = Some s \<and> s \<noteq> [] \<longrightarrow> s \<le> d) \<and>
                  (\<forall>e. end = Some e \<and> e \<noteq> [] \<longrightarrow> d \<le> e))"
  using assms
  by (cases start; cases "end") (auto simp: passesDateRange_def not_less)

lemma passesDateRange_undated:
  assumes "getProperty (metadata n) ''date'' = Inr JUndefined"
  shows "passesDateRange E fl n = Inr True"
  using assms
  by (auto simp: passesDateRange_def split: option.splits)

text \<open>
  C7.  The date range is applied by the two comparisons \<open>noteDate < start\<close> and
  \<open>noteDate > end\<close>.  When the date of the note is a string they exclude the note
  exactly when the date lies outside the non-empty bounds given, both bounds inclusive, in
  the lexicographic order (\<open>passesDateRange_string\<close>).  When the note has no date both
  comparisons are false, so the note passes whatever the bounds are
  (\<open>passesDateRange_undated\<close>): nothing excludes it, although the filter on tags just
  above begins with \<open>if (!note.metadata.tags) return false\<close>.  The same happens to a
  date written without quotes, as the documentation of the note format has it: js-yaml loads
  it as a \<open>Date\<close>, and every comparison of a \<open>Date\<close> with a date text is false.

  In the example the range is 2025-01-01 to 2025-12-31 and all four notes match the query.
  The search returns the note without a date and the note whose date is the \<open>Date\<close>
  2024-01-01, together with the note dated 2025-06-01; only the note whose date is the
  string 2024-01-01 is excluded.
\<close>

theorem search_dateRange_undated_retained:
  "map_sum id (\<lambda>ns. set (map (\<lambda>n. (note_id n, metadata n)) ns))
     (fst (getAllNotesInternal exampleEnv datedWorld))
     = Inr {(''topics/old.md'', JObject [(''date'', JDate 1704067200000)]),
            (''topics/past.md'', JObject [(''date'', JString ''2024-01-01'')]),
            (''topics/new.md'', JObject [(''date'', JString ''2025-06-01'')]),
            (''topics/plain.md'', JObject [])}
   \<and> map_sum id (\<lambda>rs. set (map note_id rs))
     (fst (searchNotes exampleEnv (Some ''admin'') ''note''
             \<lparr>filter_tags = None, filter_category = None,
              filter_dateRange = Some (Some ''2025-01-01'', Some ''2025-12-31'')\<rparr>
             datedWorld))
     = Inr {''topics/old.md'', ''topics/new.md'', ''topics/plain.md''}"
  by code_simp

subsection \<open>The category\<close>


lemma inCategory_iff:
  "CHR ''/'' \<notin> set c \<Longrightarrow> inCategory c n \<longleftrightarrow> c \<in> set (innerSegments (note_path n))"
  using str_includes_segment [of c "note_path n"] by (simp add: inCategory_def)



section \<open>Creating a note\<close>



text \<open>
  A request with a title and a content from a role with the permission reaches the model,
  and the answer is 201 with what the model returns.
\<close>

lemma notesController_createNote_created:
  "fst (notesController_createNote exampleEnv
          \<lparr>agent_role = ''admin'', agent_name = Some ''admin Agent''\<rparr>
          \<lparr>body_title = Some ''T'', body_content = Some ''body'', body_tags = None,
           body_category = None\<rparr>
          emptyWorld)
   = Json 201 \<lparr>created_id = ''topics/2025-03-15_t.md'', created_title = ''T'',
                created_path = ''notes/topics/2025-03-15_t.md'', created_date = ''2025-03-15''\<rparr>"
  by code_simp

subsection \<open>The file name\<close>

lemma collapseRuns_skip:
  "\<not> isSlugChar c \<Longrightarrow>
   collapseRuns (c # cs) = CHR ''_'' # collapseRuns (dropWhile (\<lambda>x. \<not> isSlugChar x) cs)"
proof (induction cs arbitrary: c)
  case Nil
  then show ?case by simp
next
  case (Cons d ds)
  show ?case
  proof (cases "isSlugChar d")
    case True
    with Cons.prems show ?thesis by simp
  next
    case False
    with Cons.prems Cons.IH [of d] show ?thesis by simp
  qed
qed

lemma replaceRuns_collapseRuns: "replaceRuns s = collapseRuns s"
proof (induction s rule: replaceRuns.induct)
  case 1
  then show ?case by simp
next
  case (2 c cs)
  show ?case
  proof (cases "isSlugChar c")
    case True
    with 2 show ?thesis by (cases cs) simp_all
  next
    case False
    with 2 show ?thesis by (simp add: collapseRuns_skip)
  qed
qed

lemma slug_collapseRuns: "slug ttl = collapseRuns (toLowerCase ttl)"
  by (simp add: slug_def replaceRuns_collapseRuns)

lemma slash_not_slug: "\<not> isSlugChar CHR ''/''"
  by (simp add: isSlugChar_def)

lemma replaceRuns_chars: "x \<in> set (replaceRuns s) \<Longrightarrow> isSlugChar x \<or> x = CHR ''_''"
proof (induction s rule: replaceRuns.induct)
  case 1
  then show ?case by simp
next
  case (2 c cs)
  then show ?case by (auto split: if_splits)
qed

lemma filename_plain:
  assumes "CHR ''/'' \<notin> set d"
  shows "plainName (d @ ''_'' @ slug ttl @ ''.md'')"
proof -
  have "CHR ''/'' \<notin> set (slug ttl)"
    using replaceRuns_chars [of "CHR ''/''" "toLowerCase ttl"] slash_not_slug
    by (auto simp: slug_def)
  moreover have "d @ ''_'' @ slug ttl @ ''.md'' \<noteq> ''.''"
    and "d @ ''_'' @ slug ttl @ ''.md'' \<noteq> ''..''"
    by (auto simp: append_eq_Cons_conv)
  ultimately show ?thesis using assms by (simp add: plainName_def)
qed

theorem createNote_quantum_computing_id:
  "fst (createNote exampleEnv (Some ''admin'') ''Quantum Computing!!'' ''body'' [''q''] ''topics''
          ''bob'' emptyWorld)
     = Inr \<lparr>created_id = ''topics/2025-03-15_quantum_computing_.md'',
            created_title = ''Quantum Computing!!'',
            created_path = ''notes/topics/2025-03-15_quantum_computing_.md'',
            created_date = ''2025-03-15''\<rparr>
   \<and> map_sum id created_id
        (fst (createNote exampleEnv (Some ''admin'') ''Quantum Computing!!'' ''body'' [''q'']
                ''topics'' ''bob'' emptyWorld))
     \<noteq> Inr ''topics/2025-03-15_quantum_computing.md''"
  by code_simp

lemma createNote_created:
  assumes "createNote E role ttl body tagList cat authorName w = (Inr c, w')"
  shows "c = \<lparr>created_id = path_relative (cwd w) (NOTES_DIR E)
                  (path_join [path_join [NOTES_DIR E, cat], today E @ ''_'' @ slug ttl @ ''.md'']),
              created_title = ttl,
              created_path =
                path_join [path_join [NOTES_DIR E, cat], today E @ ''_'' @ slug ttl @ ''.md''],
              created_date = today E\<rparr>"
  using assms
  by (auto simp: createNote_def Let_def split: sum.splits bool.splits prod.splits)

text \<open>
  C5 (as amended).  The file name of a created note is \<open>{dateStr}_{slug}.md\<close>, where the
  slug is the lower-cased title with every maximal run of characters outside \<open>[a-z0-9]\<close>
  replaced by one underscore, a run at the end of the title included; for a category that
  is a plain directory name the id is \<open>{category}/{dateStr}_{slug}.md\<close>.  The title
  \<open>Quantum Computing!!\<close> on 2025-03-15 in \<open>topics\<close> gives the id
  \<open>topics/2025-03-15_quantum_computing_.md\<close>, with an underscore for the two exclamation
  marks.
\<close>

theorem createNote_filename:
  assumes "createNote E role ttl body tagList cat authorName w = (Inr c, w')"
  shows "created_path c
           = path_join [path_join [NOTES_DIR E, cat],
                        today E @ ''_'' @ collapseRuns (toLowerCase ttl) @ ''.md'']
       \<and> (NOTES_DIR E \<noteq> [] \<and> plainName cat \<and> CHR ''/'' \<notin> set (today E) \<longrightarrow>
            created_id c = cat @ ''/'' @ today E @ ''_'' @ collapseRuns (toLowerCase ttl) @ ''.md'')"
proof (intro conjI impI)
  let ?fn = "today E @ ''_'' @ slug ttl @ ''.md''"
  let ?dir = "path_join [NOTES_DIR E, cat]"
  note c = createNote_created [OF assms]
  show "created_path c
           = path_join [?dir, today E @ ''_'' @ collapseRuns (toLowerCase ttl) @ ''.md'']"
    by (subst c) (simp add: slug_collapseRuns)
  assume h: "NOTES_DIR E \<noteq> [] \<and> plainName cat \<and> CHR ''/'' \<notin> set (today E)"
  then have fn: "plainName ?fn" using filename_plain [of "today E" ttl] by blast
  have d: "resolveSegs (cwd w) ?dir = resolveSegs (cwd w) (NOTES_DIR E) @ [cat]"
    using h by (simp add: resolveSegs_join1)
  have "resolveSegs (cwd w) (path_join [?dir, ?fn]) = resolveSegs (cwd w) ?dir @ [?fn]"
    using fn by (rule resolveSegs_join1 [OF path_join_nonempty])
  then have "resolveSegs (cwd w) (path_join [?dir, ?fn])
               = resolveSegs (cwd w) (NOTES_DIR E) @ [cat, ?fn]"
    using d by simp
  then have "path_relative (cwd w) (NOTES_DIR E) (path_join [?dir, ?fn]) = joinSegs [cat, ?fn]"
    by (rule path_relative_below)
  then show "created_id c = cat @ ''/'' @ today E @ ''_'' @ collapseRuns (toLowerCase ttl) @ ''.md''"
    by (subst c) (simp add: slug_collapseRuns)
qed

theorem createNote_filename_witness:
  "created_path \<lparr>created_id = ''topics/2025-03-15_quantum_computing_.md'',
                 created_title = ''Quantum Computing!!'',
                 created_path = ''notes/topics/2025-03-15_quantum_computing_.md'',
                 created_date = ''2025-03-15''\<rparr>
     = path_join [path_join [''./notes'', ''topics''],
                  ''2025-03-15'' @ ''_'' @ collapseRuns (toLowerCase ''Quantum Computing!!'') @ ''.md'']
   \<and> ''topics/2025-03-15_quantum_computing_.md''
     = ''topics'' @ ''/'' @ ''2025-03-15'' @ ''_''
         @ collapseRuns (toLowerCase ''Quantum Computing!!'') @ ''.md''"
proof -
  let ?r = "createNote exampleEnv (Some ''admin'') ''Quantum Computing!!'' ''body'' [''q'']
              ''topics'' ''bob'' emptyWorld"
  let ?c = "\<lparr>created_id = ''topics/2025-03-15_quantum_computing_.md'',
             created_title = ''Quantum Computing!!'',
             created_path = ''notes/topics/2025-03-15_quantum_computing_.md'',
             created_date = ''2025-03-15''\<rparr>"
  have "fst ?r = Inr ?c" by code_simp
  then have h: "?r = (Inr ?c, snd ?r)" by (metis prod.collapse)
  have p: "NOTES_DIR exampleEnv \<noteq> [] \<and> plainName ''topics''
             \<and> CHR ''/'' \<notin> set (today exampleEnv)"
    by (simp add: exampleEnv_def plainName_def)
  from createNote_filename [OF h] p show ?thesis
    by (simp add: exampleEnv_def)
qed

section \<open>The text form of a note\<close>

lemma str_includes_Cons:
  "str_includes (c # cs) p \<longleftrightarrow> startsWith (c # cs) p \<or> str_includes cs p"
  by simp

lemma startsWith_take_longer:
  "length p \<le> length a \<Longrightarrow> startsWith (a @ b) p \<longleftrightarrow> startsWith a p"
  by (simp add: startsWith_def)

lemma splitFirst_here: "p \<noteq> [] \<Longrightarrow> splitFirst p (p @ rest) = Some ([], rest)"
proof -
  assume "p \<noteq> []"
  then obtain a ps where p: "p = a # ps" by (cases p) auto
  have "startsWith (a # (ps @ rest)) (a # ps)" by (simp add: startsWith_def)
  then have "splitFirst (a # ps) (a # (ps @ rest)) = Some ([], rest)" by simp
  then show ?thesis by (simp add: p)
qed

lemma splitFirst_later:
  "\<not> startsWith (c # s) p \<Longrightarrow> splitFirst p s = Some (a, b) \<Longrightarrow>
   splitFirst p (c # s) = Some (c # a, b)"
  by simp

lemma splitFirst_first:
  assumes "p \<noteq> []" and "\<not> str_includes (y @ butlast p) p"
  shows "splitFirst p (y @ p @ rest) = Some (y, rest)"
  using assms(2)
proof (induction y)
  case Nil
  show ?case using splitFirst_here [OF assms(1), of rest] by simp
next
  case (Cons c ys)
  from Cons.prems have ns: "\<not> startsWith ((c # ys) @ butlast p) p"
    and ni: "\<not> str_includes (ys @ butlast p) p" by simp_all
  have len: "length p \<le> length ((c # ys) @ butlast p)" by simp
  have split: "c # (ys @ p @ rest) = ((c # ys) @ butlast p) @ ([last p] @ rest)"
    using assms(1) by simp
  have "startsWith (((c # ys) @ butlast p) @ ([last p] @ rest)) p
          \<longleftrightarrow> startsWith ((c # ys) @ butlast p) p"
    by (rule startsWith_take_longer [OF len])
  with ns have n: "\<not> startsWith (c # (ys @ p @ rest)) p" unfolding split by blast
  have "splitFirst p (ys @ p @ rest) = Some (ys, rest)" using Cons.IH [OF ni] .
  with n have "splitFirst p (c # (ys @ p @ rest)) = Some (c # ys, rest)"
    by (rule splitFirst_later)
  then show ?case by simp
qed

lemma metadataMatch_formatted:
  assumes "\<not> str_includes (y @ ''\<newline>---'') ''\<newline>---\<newline>''"
  shows "metadataMatch (''---\<newline>'' @ y @ ''\<newline>---\<newline>'' @ rest) = Some (y, rest)"
proof -
  have "splitFirst ''\<newline>---\<newline>'' (y @ ''\<newline>---\<newline>'' @ rest) = Some (y, rest)"
    by (rule splitFirst_first) (use assms in simp_all)
  then show ?thesis by (simp add: metadataMatch_def startsWith_def)
qed

lemma takeWhile_title:
  "\<forall>x \<in> set t. \<not> isLineTerminator x \<Longrightarrow>
   takeWhile (\<lambda>x. \<not> isLineTerminator x) (t @ CHR 0x0A # rest) = t"
  by (induction t) (simp_all add: isLineTerminator_def)

lemma titleMatch_heading:
  assumes "\<forall>x \<in> set t. \<not> isLineTerminator x"
  shows "titleMatch (''\<newline># '' @ t @ ''\<newline>\<newline>'' @ rest) = Some t"
  using takeWhile_title [OF assms, of "CHR 0x0A # rest"]
  by (simp add: titleMatch_def startsWith_def isLineTerminator_def)

lemma trim_newline: "trim (CHR 0x0A # s) = trim s"
  by (simp add: trim_def isWhiteSpace_def)

theorem parse_format_content_has_heading:
  "content (parseNoteContent exampleEnv ''/app''
              (formatNoteContent exampleEnv (JObject []) ''T'' ''body'')
              ''notes/topics/x.md'' ''./notes'')
     = ''# T\<newline>\<newline>body''
   \<and> content (parseNoteContent exampleEnv ''/app''
              (formatNoteContent exampleEnv (JObject []) ''T'' ''body'')
              ''notes/topics/x.md'' ''./notes'')
     \<noteq> ''body''"
  by code_simp

text \<open>
  C1 (as amended).  Let the metadata be a mapping that js-yaml writes as lines none of
  which is \<open>---\<close> and reads back as the same mapping, and let the title have no line
  break.  Then parsing the formatted note yields the same metadata.  When the content does
  not start with \<open># \<close> (leading white space aside), it yields the same title, and as
  content the synthesized heading followed by the given content, trimmed: the heading
  line is part of the decoded content.  When the content starts with \<open># \<close>, it yields
  the content, trimmed.
\<close>

theorem parse_format_roundtrip:
  assumes "yaml_dump E md = y @ ''\<newline>''"
      and "\<not> str_includes (y @ ''\<newline>---'') ''\<newline>---\<newline>''"
      and "yaml_load E y = Inr md"
      and "\<forall>x \<in> set ttl. \<not> isLineTerminator x"
  shows "metadata (parseNoteContent E wd (formatNoteContent E md ttl body) filePath notesDir) = md
       \<and> (\<not> startsWith (trim body) ''# '' \<longrightarrow>
            title (parseNoteContent E wd (formatNoteContent E md ttl body) filePath notesDir) = ttl
            \<and> content (parseNoteContent E wd (formatNoteContent E md ttl body) filePath notesDir)
                = trim (''# '' @ ttl @ ''\<newline>\<newline>'' @ body))
       \<and> (startsWith (trim body) ''# '' \<longrightarrow>
            content (parseNoteContent E wd (formatNoteContent E md ttl body) filePath notesDir)
              = trim body)"
proof (cases "startsWith (trim body) ''# ''")
  case True
  have f: "formatNoteContent E md ttl body
             = ''---\<newline>'' @ y @ ''\<newline>---\<newline>'' @ (''\<newline>'' @ body)"
    using True assms(1) by (simp add: formatNoteContent_def)
  have m: "metadataMatch (formatNoteContent E md ttl body) = Some (y, ''\<newline>'' @ body)"
    unfolding f by (rule metadataMatch_formatted [OF assms(2)])
  show ?thesis
    using True assms(3) trim_newline [of body] by (simp add: parseNoteContent_def m)
next
  case False
  let ?rest = "''\<newline># '' @ ttl @ ''\<newline>\<newline>'' @ body"
  have f: "formatNoteContent E md ttl body
             = ''---\<newline>'' @ y @ ''\<newline>---\<newline>'' @ ?rest"
    using False assms(1) by (simp add: formatNoteContent_def)
  have m: "metadataMatch (formatNoteContent E md ttl body) = Some (y, ?rest)"
    unfolding f by (rule metadataMatch_formatted [OF assms(2)])
  have t: "titleMatch ?rest = Some ttl" by (rule titleMatch_heading [OF assms(4)])
  have c: "trim ?rest = trim (''# '' @ ttl @ ''\<newline>\<newline>'' @ body)"
    using trim_newline [of "''# '' @ ttl @ ''\<newline>\<newline>'' @ body"] by simp
  show ?thesis
    using False assms(3) t c by (simp add: parseNoteContent_def m)
qed

theorem parse_format_roundtrip_witness:
  "metadata (parseNoteContent exampleEnv ''/app''
               (formatNoteContent exampleEnv (JObject []) ''T'' ''body'')
               ''notes/topics/x.md'' ''./notes'') = JObject []
   \<and> title (parseNoteContent exampleEnv ''/app''
               (formatNoteContent exampleEnv (JObject []) ''T'' ''body'')
               ''notes/topics/x.md'' ''./notes'') = ''T''
   \<and> content (parseNoteContent exampleEnv ''/app''
               (formatNoteContent exampleEnv (JObject []) ''T'' ''body'')
               ''notes/topics/x.md'' ''./notes'') = trim (''# '' @ ''T'' @ ''\<newline>\<newline>'' @ ''body'')"
proof -
  have a1: "yaml_dump exampleEnv (JObject []) = ''{}'' @ ''\<newline>''"
    by (simp add: exampleEnv_def)
  have a2: "\<not> str_includes (''{}'' @ ''\<newline>---'') ''\<newline>---\<newline>''"
    by code_simp
  have a3: "yaml_load exampleEnv ''{}'' = Inr (JObject [])"
    by (simp add: exampleEnv_def)
  have a4: "\<forall>x \<in> set ''T''. \<not> isLineTerminator x"
    by (simp add: isLineTerminator_def)
  have a5: "\<not> startsWith (trim ''body'') ''# ''"
    by code_simp
  from parse_format_roundtrip [OF a1 a2 a3 a4, of "''/app''" "''body''" "''notes/topics/x.md''" "''./notes''"] a5
  show ?thesis by blast
qed

section \<open>Archiving a note\<close>

lemma archive_tree:
  assumes src: "lookup t (R @ [a, f]) = Inr (File text)"
      and nofile: "\<forall>c. lookup t (R @ [b]) \<noteq> Inr (File c)"
      and nodir: "\<forall>es. lookup t (R @ [b, f]) \<noteq> Inr (Dir es)"
      and ab: "a \<noteq> b"
  shows "\<exists>t2 t3 t4. mkdirp (R @ [b]) t = Inr t2
          \<and> lookup t2 (R @ [a, f]) = Inr (File text)
          \<and> alter (R @ [b, f]) (renameOnto False (File text)) t2 = Inr t3
          \<and> alter (R @ [a, f]) removeAt t3 = Inr t4
          \<and> lookup t4 (R @ [a, f]) = Inl ENOENT
          \<and> lookup t4 (R @ [b, f]) = Inr (File text)"
proof -
  have src': "lookup t ((R @ [a]) @ [f]) = Inr (File text)" using src by simp
  from lookup_snoc_parent [OF src'] obtain ea where
    la: "lookup t (R @ [a]) = Inr (Dir ea)" by blast
  from lookup_snoc_parent [OF la] obtain es where
    lR: "lookup t R = Inr (Dir es)" by blast
  \<comment> \<open>the directory \<open>b\<close> is made, or is there already\<close>
  have lb: "lookup t (R @ [b]) = (case map_of es b of None \<Rightarrow> Inl ENOENT | Some n \<Rightarrow> Inr n)"
    by (rule lookup_snoc_Dir [OF lR])
  obtain eb where leaf: "mkdirLeaf (map_of es b) = Inr (Some (Dir eb))"
    and eb: "map_of es b = None \<and> eb = [] \<or> map_of es b = Some (Dir eb)"
  proof (cases "map_of es b")
    case None
    then show ?thesis using that [of "[]"] by (simp add: mkdirLeaf_def)
  next
    case (Some n)
    with lb nofile obtain e where "n = Dir e" by (cases n) auto
    with Some show ?thesis using that [of e] by (simp add: mkdirLeaf_def)
  qed
  from alter_succeeds [where f = mkdirLeaf and s = b, OF lR leaf] obtain t2 where
    a2: "alter (R @ [b]) mkdirLeaf t = Inr t2" by blast
  have m2: "mkdirp (R @ [b]) t = Inr t2"
    using mkdirp_as_alter [OF lR, of b] a2 by simp
  from alter_same [OF a2] lR leaf have lb2: "lookup t2 (R @ [b]) = Inr (Dir eb)" by auto
  have src2: "lookup t2 (R @ [a, f]) = Inr (File text)"
    using alter_other [of R b "[]" mkdirLeaf t t2 a "[f]"] a2 ab src by simp
  \<comment> \<open>nothing that is a directory stands at the new path\<close>
  have tgt: "\<forall>e. map_of eb f \<noteq> Some (Dir e)"
  proof (cases "map_of es b")
    case None
    with eb show ?thesis by simp
  next
    case (Some n)
    with eb have n: "map_of es b = Some (Dir eb)" by simp
    then have "lookup t (R @ [b]) = Inr (Dir eb)" using lb by simp
    from lookup_snoc_Dir [OF this, of f] nodir show ?thesis
      by (auto split: option.splits)
  qed
  have onto: "renameOnto False (File text) (map_of eb f) = Inr (Some (File text))"
    using tgt by (cases "map_of eb f") (auto simp: renameOnto_def split: node.splits)
  from alter_succeeds [where f = "renameOnto False (File text)" and s = f, OF lb2 onto] obtain t3 where
    a3: "alter ((R @ [b]) @ [f]) (renameOnto False (File text)) t2 = Inr t3" by blast
  from alter_same [OF a3] lb2 onto
  have new3: "lookup t3 ((R @ [b]) @ [f]) = Inr (File text)" by auto
  have src3: "lookup t3 (R @ [a, f]) = Inr (File text)"
    using alter_other [of R b "[f]" _ t2 t3 a "[f]"] a3 ab src2 by simp
  \<comment> \<open>the old entry is removed\<close>
  have src3': "lookup t3 ((R @ [a]) @ [f]) = Inr (File text)" using src3 by simp
  from lookup_snoc_parent [OF src3'] obtain ea3 where
    la3: "lookup t3 (R @ [a]) = Inr (Dir ea3)" by blast
  have rm: "removeAt (map_of ea3 f) = Inr None" by (simp add: removeAt_def)
  from alter_succeeds [where f = removeAt and s = f, OF la3 rm] obtain t4 where
    a4: "alter ((R @ [a]) @ [f]) removeAt t3 = Inr t4" by blast
  from alter_same [OF a4] la3 rm
  have old4: "lookup t4 ((R @ [a]) @ [f]) = Inl ENOENT" by auto
  have new4: "lookup t4 (R @ [b, f]) = Inr (File text)"
    using alter_other [of R a "[f]" removeAt t3 t4 b "[f]"] a4 ab new3 by simp
  show ?thesis
    using m2 src2 a3 a4 old4 new4 by simp
qed


lemma strip_no_trailing: "\<not> trailingSeparator p \<Longrightarrow> stripTrailingSeparators p = p"
proof (cases "p = []")
  case True
  then show ?thesis by (simp add: stripTrailingSeparators_def)
next
  case False
  assume "\<not> trailingSeparator p"
  with False have "hd (rev p) \<noteq> CHR ''/''" by (simp add: trailingSeparator_def hd_rev)
  then have "dropWhile (\<lambda>c. c = CHR ''/'') (rev p) = rev p"
    using False by (cases "rev p") simp_all
  then show ?thesis by (simp add: stripTrailingSeparators_def)
qed

lemma trailingSeparator_path_join:
  assumes "ND \<noteq> []" "xs \<noteq> []" "\<forall>x \<in> set xs. plainName x"
  shows "\<not> trailingSeparator (path_join [ND, joinSegs xs])"
proof -
  have "joinSegs (normalizeString ND (\<not> isAbsolute ND) @ xs)
          = joinSegs (normalizeString ND (\<not> isAbsolute ND)) @ (if normalizeString ND (\<not> isAbsolute ND) = [] then [] else ''/'') @ joinSegs xs"
    using assms(2) by (cases "normalizeString ND (\<not> isAbsolute ND) = []") (simp_all add: joinSegs_append)
  then have "path_join [ND, joinSegs xs]
          = ((if isAbsolute ND then ''/'' else []) @ joinSegs (normalizeString ND (\<not> isAbsolute ND)) @ (if normalizeString ND (\<not> isAbsolute ND) = [] then [] else ''/'')) @ joinSegs xs"
    using path_join_plain [OF assms] by simp
  then show ?thesis using trailingSeparator_join [OF assms(2,3)] by metis
qed

lemma last_splitOn_append:
  "CHR ''/'' \<notin> set b \<Longrightarrow> last (splitOn CHR ''/'' (a @ CHR ''/'' # b)) = b"
  by (simp add: splitOn_append_sep splitOn_free)

lemma path_basename_path_join:
  assumes "ND \<noteq> []" "xs \<noteq> []" "\<forall>x \<in> set xs. plainName x"
  shows "path_basename (path_join [ND, joinSegs xs]) = last xs"
proof -
  let ?N = "normalizeString ND (\<not> isAbsolute ND)"
  let ?pre = "if isAbsolute ND then ''/'' else []"
  have pj: "path_join [ND, joinSegs xs] = ?pre @ joinSegs (?N @ xs)"
    by (rule path_join_plain [OF assms])
  have fr: "\<forall>x \<in> set (?N @ xs). CHR ''/'' \<notin> set x"
    using normalizeString_free [of ND "\<not> isAbsolute ND"] plain_free [OF assms(3)] by auto
  have sp: "splitOn CHR ''/'' (joinSegs (?N @ xs)) = ?N @ xs"
    by (rule splitOn_joinSegs) (use assms(2) fr in simp_all)
  have "last (splitOn CHR ''/'' (?pre @ joinSegs (?N @ xs))) = last xs"
  proof (cases "isAbsolute ND")
    case True
    with sp assms(2) show ?thesis by simp
  next
    case False
    with sp assms(2) show ?thesis by simp
  qed
  then show ?thesis
    using strip_no_trailing [OF trailingSeparator_path_join [OF assms]]
    by (simp add: path_basename_def pj)
qed

lemma length_last_splitOn: "length (last (splitOn d s)) \<le> length s"
  by (induction s) (auto split: list.splits)

lemma path_basename_ext_md:
  assumes "path_basename p = ''x.md''" and "\<not> trailingSeparator p"
  shows "path_basename_ext p ''.md'' = ''x''"
proof -
  have st: "stripTrailingSeparators p = p" by (rule strip_no_trailing [OF assms(2)])
  have "length (path_basename p) \<le> length p"
    using length_last_splitOn [of "CHR ''/''" p] by (simp add: path_basename_def st)
  then have len: "4 \<le> length p" using assms(1) by simp
  then have ne: "p \<noteq> []" "p \<noteq> ''.md''" by auto
  show ?thesis
    using len ne st assms(1) by (simp add: path_basename_ext_def Let_def endsWith_def)
qed

lemma path_join3:
  "b \<noteq> [] \<Longrightarrow> c \<noteq> [] \<Longrightarrow> path_join [a, b, c] = path_join [a, joinSegs [b, c]]"
  by (simp add: path_join_def)

lemma resolveNode_plain:
  "p \<noteq> [] \<Longrightarrow> \<not> trailingSeparator p \<Longrightarrow>
   resolveNode w p = lookup (tree w) (resolveSegs (cwd w) p)"
  by (simp add: resolveNode_def split: sum.splits)

text \<open>
  C4.  Let the role be allowed to delete and to read, and let \<open>topics/x.md\<close> be a file
  under the notes directory (where \<open>archive\<close> is not a regular file and \<open>archive/x.md\<close>
  is not a directory, so that the platform can make the directory and rename the file).
  Then \<open>getNoteById\<close> returns the note; archiving it returns the new id
  \<open>archive/x.md\<close>; reading \<open>archive/x.md\<close> afterwards returns the same note with only
  its id and path changed; and reading \<open>topics/x.md\<close> afterwards returns \<open>null\<close>.
\<close>

theorem archive_postcondition:
  assumes del: "isAuthorized role (Some ''delete'') = Inr True"
      and rd: "isAuthorized role (Some ''read'') = Inr True"
      and nd: "NOTES_DIR E \<noteq> []"
      and src: "lookup (tree w) (resolveSegs (cwd w) (NOTES_DIR E) @ [''topics'', ''x.md''])
                  = Inr (File raw)"
      and nofile: "\<forall>c. lookup (tree w) (resolveSegs (cwd w) (NOTES_DIR E) @ [''archive''])
                  \<noteq> Inr (File c)"
      and nodir: "\<forall>es. lookup (tree w) (resolveSegs (cwd w) (NOTES_DIR E) @ [''archive'', ''x.md''])
                  \<noteq> Inr (Dir es)"
  shows "\<exists>w' n. fst (getNoteById E role ''topics/x.md'' w) = Inr (Some n)
           \<and> deleteNote E role ''topics/x.md'' True w
               = (Inr (Some \<lparr>deleted_message = ''Note archived'',
                              deleted_id = Some ''archive/x.md''\<rparr>), w')
           \<and> fst (getNoteById E role ''archive/x.md'' w')
               = Inr (Some (n\<lparr>note_id := ''archive/x.md'',
                              note_path := path_join [NOTES_DIR E, ''archive/x.md'']\<rparr>))
           \<and> fst (getNoteById E role ''topics/x.md'' w') = Inr None"
proof -
  define R where "R = resolveSegs (cwd w) (NOTES_DIR E)"
  define np where "np = path_join [NOTES_DIR E, ''topics/x.md'']"
  define ad where "ad = path_join [NOTES_DIR E, ''archive'']"
  define ap where "ap = path_join [NOTES_DIR E, ''archive/x.md'']"
  define n where "n = parseNoteContent E (cwd w) raw np (NOTES_DIR E)"
  have pl_np: "\<forall>x \<in> set [''topics'', ''x.md'']. plainName x"
    and pl_ap: "\<forall>x \<in> set [''archive'', ''x.md'']. plainName x"
    and pl_ad: "\<forall>x \<in> set [''archive'']. plainName x"
    by (simp_all add: plainName_def)
  have np_j: "np = path_join [NOTES_DIR E, joinSegs [''topics'', ''x.md'']]"
    and ap_j: "ap = path_join [NOTES_DIR E, joinSegs [''archive'', ''x.md'']]"
    and ad_j: "ad = path_join [NOTES_DIR E, joinSegs [''archive'']]"
    by (simp_all add: np_def ap_def ad_def)
  \<comment> \<open>the three paths\<close>
  have s_np: "resolveSegs (cwd w) np = R @ [''topics'', ''x.md'']"
    unfolding np_j R_def by (rule resolveSegs_join [OF nd _ pl_np]) simp
  have s_ap: "resolveSegs (cwd w) ap = R @ [''archive'', ''x.md'']"
    unfolding ap_j R_def by (rule resolveSegs_join [OF nd _ pl_ap]) simp
  have s_ad: "resolveSegs (cwd w) ad = R @ [''archive'']"
    unfolding ad_j R_def by (rule resolveSegs_join [OF nd _ pl_ad]) simp
  have ne: "np \<noteq> []" "ap \<noteq> []" "ad \<noteq> []"
    by (simp_all add: np_def ap_def ad_def path_join_nonempty)
  have nt_np: "\<not> trailingSeparator np"
    unfolding np_j by (rule trailingSeparator_path_join [OF nd _ pl_np]) simp
  have nt_ap: "\<not> trailingSeparator ap"
    unfolding ap_j by (rule trailingSeparator_path_join [OF nd _ pl_ap]) simp
  have bn_np: "path_basename np = ''x.md''"
    unfolding np_j using path_basename_path_join [OF nd _ pl_np] by simp
  have bn_ap: "path_basename ap = ''x.md''"
    unfolding ap_j using path_basename_path_join [OF nd _ pl_ap] by simp
  have ap3: "path_join [NOTES_DIR E, ''archive'', path_basename np] = ap"
    unfolding bn_np ap_j by (rule path_join3) simp_all
  have stem: "path_basename_ext ap ''.md'' = path_basename_ext np ''.md''"
    using path_basename_ext_md [OF bn_np nt_np] path_basename_ext_md [OF bn_ap nt_ap] by simp
  have rel: "path_relative (cwd w) (NOTES_DIR E) ap = ''archive/x.md''"
    using path_relative_below [of "cwd w" ap "NOTES_DIR E" "[''archive'', ''x.md'']"] s_ap
    by (simp add: R_def)
  have in_np: "insideNotesDir E w0 np" if "cwd w0 = cwd w" for w0
    unfolding insideNotesDir_def that
    by (rule path_resolve_below [of _ _ _ "[''topics'', ''x.md'']"]) (simp add: s_np R_def)
  have in_ap: "insideNotesDir E w0 ap" if "cwd w0 = cwd w" for w0
    unfolding insideNotesDir_def that
    by (rule path_resolve_below [of _ _ _ "[''archive'', ''x.md'']"]) (simp add: s_ap R_def)
  \<comment> \<open>the tree after each step\<close>
  from archive_tree [of "tree w" R "''topics''" "''x.md''" raw "''archive''"]
       src nofile nodir
  obtain t2 t3 t4 where
        m2: "mkdirp (R @ [''archive'']) (tree w) = Inr t2"
    and src2: "lookup t2 (R @ [''topics'', ''x.md'']) = Inr (File raw)"
    and a3: "alter (R @ [''archive'', ''x.md'']) (renameOnto False (File raw)) t2 = Inr t3"
    and a4: "alter (R @ [''topics'', ''x.md'']) removeAt t3 = Inr t4"
    and old4: "lookup t4 (R @ [''topics'', ''x.md'']) = Inl ENOENT"
    and new4: "lookup t4 (R @ [''archive'', ''x.md'']) = Inr (File raw)"
    unfolding R_def by auto
  define w1 where "w1 = logCall (Access np) w"
  define w2 where "w2 = logCall (Mkdir ad) (w1\<lparr>tree := t2\<rparr>)"
  define w3 where "w3 = (logCall (Rename np ap) w2)\<lparr>tree := t4\<rparr>"
  have st1: "tree w1 = tree w" "cwd w1 = cwd w" by (simp_all add: w1_def)
  have st2: "tree w2 = t2" "cwd w2 = cwd w" by (simp_all add: w2_def st1)
  have st3: "tree w3 = t4" "cwd w3 = cwd w" by (simp_all add: w3_def st2)
  \<comment> \<open>the calls of \<open>deleteNote\<close>\<close>
  have acc: "fs_access np w = (Inr (), w1)"
    using src by (simp add: fs_access_def resolveNode_plain [OF ne(1) nt_np] s_np R_def w1_def)
  have mk: "fs_mkdir ad w1 = (Inr (), w2)"
    using m2 ne(3) by (simp add: fs_mkdir_def st1 s_ad w2_def)
  have diff: "R @ [''topics'', ''x.md''] \<noteq> R @ [''archive'', ''x.md'']"
    and nopre: "take (length (R @ [''topics'', ''x.md''])) (R @ [''archive'', ''x.md''])
                  \<noteq> R @ [''topics'', ''x.md'']"
    by simp_all
  have rn: "fs_rename np ap w2 = (Inr (), w3)"
    using src2 a3 a4 ne(2) diff nopre nt_ap
    by (simp add: fs_rename_def Let_def resolveNode_plain [OF ne(1) nt_np] st2 s_np s_ap w3_def)
  have d: "deleteNote E role ''topics/x.md'' True w
             = (Inr (Some \<lparr>deleted_message = ''Note archived'',
                           deleted_id = Some ''archive/x.md''\<rparr>), w3)"
    using in_np [of w] acc mk rn
    by (simp add: deleteNote_def del Let_def np_def [symmetric] ad_def [symmetric] ap3 rel)
  \<comment> \<open>reading before and after\<close>
  have g0: "fst (getNoteById E role ''topics/x.md'' w) = Inr (Some n)"
    using in_np [of w] src
    by (simp add: getNoteById_def rd Let_def np_def [symmetric] fs_readFile_def
          resolveNode_plain [OF ne(1) nt_np] s_np R_def n_def)
  have g_old: "fst (getNoteById E role ''topics/x.md'' w3) = Inr None"
    using in_np [of w3] old4
    by (simp add: getNoteById_def rd Let_def np_def [symmetric] fs_readFile_def
          resolveNode_plain [OF ne(1) nt_np] st3 s_np catchENOENT_def)
  have p: "parseNoteContent E (cwd w) raw ap (NOTES_DIR E)
             = n\<lparr>note_id := ''archive/x.md'', note_path := ap\<rparr>"
    by (simp add: n_def parseNoteContent_def rel stem split: option.splits sum.splits)
  have g_new: "fst (getNoteById E role ''archive/x.md'' w3)
                 = Inr (Some (n\<lparr>note_id := ''archive/x.md'', note_path := ap\<rparr>))"
    using in_ap [of w3] new4
    by (simp add: getNoteById_def rd Let_def ap_def [symmetric] fs_readFile_def
          resolveNode_plain [OF ne(2) nt_ap] st3 s_ap p)
  show ?thesis
    using g0 d g_new g_old unfolding ap_def by blast
qed

theorem archive_postcondition_witness:
  "\<exists>w' n. fst (getNoteById exampleEnv (Some ''admin'') ''topics/x.md'' archiveWorld) = Inr (Some n)
           \<and> deleteNote exampleEnv (Some ''admin'') ''topics/x.md'' True archiveWorld
               = (Inr (Some \<lparr>deleted_message = ''Note archived'',
                              deleted_id = Some ''archive/x.md''\<rparr>), w')
           \<and> fst (getNoteById exampleEnv (Some ''admin'') ''archive/x.md'' w')
               = Inr (Some (n\<lparr>note_id := ''archive/x.md'',
                              note_path := path_join [NOTES_DIR exampleEnv, ''archive/x.md'']\<rparr>))
           \<and> fst (getNoteById exampleEnv (Some ''admin'') ''topics/x.md'' w') = Inr None"
proof -
  let ?R = "resolveSegs (cwd archiveWorld) (NOTES_DIR exampleEnv)"
  have del: "isAuthorized (Some ''admin'') (Some ''delete'') = Inr True" by code_simp
  have rd: "isAuthorized (Some ''admin'') (Some ''read'') = Inr True" by code_simp
  have nd: "NOTES_DIR exampleEnv \<noteq> []" by (simp add: exampleEnv_def)
  have src: "lookup (tree archiveWorld) (?R @ [''topics'', ''x.md''])
               = Inr (File ''# X\<newline>\<newline>body'')" by code_simp
  have "lookup (tree archiveWorld) (?R @ [''archive'']) = Inr (Dir [])" by code_simp
  then have nofile: "\<forall>c. lookup (tree archiveWorld) (?R @ [''archive'']) \<noteq> Inr (File c)"
    by simp
  have "lookup (tree archiveWorld) (?R @ [''archive'', ''x.md'']) = Inl ENOENT" by code_simp
  then have nodir: "\<forall>es. lookup (tree archiveWorld) (?R @ [''archive'', ''x.md'']) \<noteq> Inr (Dir es)"
    by simp
  show ?thesis by (rule archive_postcondition [OF del rd nd src nofile nodir])
qed

section \<open>Ranking for queries without pattern syntax\<close>

lemma dotPattern_literal:
  "\<forall>c \<in> set q. c \<notin> set rxSyntaxCharacters \<and> c \<noteq> CHR ''.'' \<Longrightarrow>
   dotPattern q = Some (map RxChar q)"
  by (auto simp: dotPattern_def)

lemma list_all2_literal: "list_all2 atomMatches (map RxChar q) s \<longleftrightarrow> s = q"
proof (induction q arbitrary: s)
  case Nil
  then show ?case by simp
next
  case (Cons c q)
  then show ?case by (cases s) (auto simp: atomMatches_def)
qed

lemma matchesAt_literal: "matchesAt (map RxChar q) s \<longleftrightarrow> startsWith s q"
proof -
  have "take (length q) s = q \<Longrightarrow> length q \<le> length s"
    by (metis length_take min.cobounded1 min.commute)
  then show ?thesis by (auto simp: matchesAt_def list_all2_literal startsWith_def)
qed

lemma rxCount_literal: "q \<noteq> [] \<Longrightarrow> rxCount (map RxChar q) s = occurrences q s"
proof (induction q s rule: occurrences.induct)
  case (1 q)
  then show ?case by simp
next
  case (2 q c cs)
  show ?case
  proof (cases "startsWith (c # cs) q")
    case True
    with 2 show ?thesis by (simp add: matchesAt_literal)
  next
    case False
    with 2 show ?thesis by (simp add: matchesAt_literal)
  qed
qed

lemma relevanceCount_literal:
  "query \<noteq> [] \<Longrightarrow>
   relevanceCount (rxCount (map RxChar (toLowerCase query))) n = relevance query n"
proof -
  assume "query \<noteq> []"
  then have "toLowerCase query \<noteq> []" by (simp add: toLowerCase_def)
  then show ?thesis by (simp add: relevanceCount_def relevance_def rxCount_literal)
qed

lemma insertSorted_insort_key:
  "insertSorted (\<lambda>a b. Inr (int (k b) - int (k a))) x ys
     = Inr (insort_key (\<lambda>n. - int (k n)) x ys)"
  by (induction ys) simp_all

lemma Array_sort_sort_key:
  "Array_sort (\<lambda>a b. Inr (int (k b) - int (k a))) xs = Inr (sort_key (\<lambda>n. - int (k n)) xs)"
  by (induction xs) (simp_all add: insertSorted_insort_key)

lemma sorted_neg_iff:
  "sorted (map (\<lambda>n. - int (k n)) xs) \<longleftrightarrow> sorted_wrt (\<lambda>a b. k b \<le> k a) xs"
  by (induction xs) auto

text \<open>
  For a non-empty query whose lower-cased text has no syntax character of regular
  expressions, read by the engine as the pattern of its characters, the pattern matches
  are the occurrences of the text: the search returns the retained notes in descending
  order of relevance, and notes of equal relevance keep the order they had in the listing.
\<close>

theorem searchNotes_ranking_literal:
  assumes "searchNotes E role query fl w = (Inr rs, w')"
      and "query \<noteq> []"
      and "\<forall>c \<in> set (toLowerCase query). c \<notin> set rxSyntaxCharacters \<and> c \<noteq> CHR ''.''"
      and "readsDotPattern E (toLowerCase query)"
  shows "\<exists>all. fst (getAllNotesInternal E w) = Inr all
           \<and> sorted_wrt (\<lambda>a b. relevance query b \<le> relevance query a) rs
           \<and> set rs = set (filter (\<lambda>n. searchFilter E query fl n = Inr True) all)
           \<and> length rs = length (filter (\<lambda>n. searchFilter E query fl n = Inr True) all)
           \<and> (\<forall>k. filter (\<lambda>n. relevance query n = k) rs
                    = filter (\<lambda>n. relevance query n = k)
                        (filter (\<lambda>n. searchFilter E query fl n = Inr True) all))"
proof -
  obtain r1 w1 where g: "getAllNotesInternal E w = (r1, w1)"
    by (cases "getAllNotesInternal E w")
  from assms(1) have auth: "isAuthorized role (Some ''read'') = Inr True"
    by (auto simp: searchNotes_def split: sum.splits bool.splits)
  from assms(1) auth g obtain all where r1: "r1 = Inr all"
    by (cases r1) (auto simp: searchNotes_def)
  let ?results = "filter (\<lambda>n. searchFilter E query fl n = Inr True) all"
  let ?key = "\<lambda>n. - int (relevance query n)"
  from assms(1) auth g r1 obtain results
    where f: "Array_filter (searchFilter E query fl) all = Inr results"
      and s: "Array_sort (relevanceCompare E query) results = Inr rs"
    by (cases "Array_filter (searchFilter E query fl) all") (auto simp: searchNotes_def)
  from Array_filter_result [OF f] have res: "results = ?results" .
  from assms(4) dotPattern_literal [OF assms(3)]
  have rx: "regexp_matches E (toLowerCase query)
              = Some (rxCount (map RxChar (toLowerCase query)))"
    by (simp add: readsDotPattern_def)
  have cmp: "relevanceCompare E query
               = (\<lambda>a b. Inr (int (relevance query b) - int (relevance query a)))"
    by (intro ext) (simp add: relevanceCompare_def rx relevanceCount_literal [OF assms(2)])
  have keq: "(- int (relevance query n) = - int k) = (relevance query n = k)" for n k
    by simp
  from s have rs: "rs = sort_key ?key ?results"
    by (simp add: cmp Array_sort_sort_key res)
  have "sorted (map ?key rs)" unfolding rs by (rule sorted_sort_key)
  then have so: "sorted_wrt (\<lambda>a b. relevance query b \<le> relevance query a) rs"
    by (simp add: sorted_neg_iff)
  have st: "filter (\<lambda>n. relevance query n = k) rs
              = filter (\<lambda>n. relevance query n = k) ?results" for k
    using sort_key_stable [of ?key "- int k" ?results] by (simp add: rs keq)
  show ?thesis using g r1 so st by (simp add: rs)
qed

theorem searchNotes_ranking_literal_witness:
  "\<exists>all. fst (getAllNotesInternal exampleEnv sampleWorld) = Inr all
     \<and> sorted_wrt (\<lambda>a b. relevance ''d'' b \<le> relevance ''d'' a)
           [\<lparr>note_id = ''topics/a.md'', note_path = ''notes/topics/a.md'', title = ''a'',
             content = ''abcd.'', metadata = JObject []\<rparr>,
            \<lparr>note_id = ''topics/sub/x.md'', note_path = ''notes/topics/sub/x.md'',
             title = ''x'', content = ''nested note'', metadata = JObject []\<rparr>]
     \<and> length [\<lparr>note_id = ''topics/a.md'', note_path = ''notes/topics/a.md'', title = ''a'',
                 content = ''abcd.'', metadata = JObject []\<rparr>,
                \<lparr>note_id = ''topics/sub/x.md'', note_path = ''notes/topics/sub/x.md'',
                 title = ''x'', content = ''nested note'', metadata = JObject []\<rparr>]
         = length (filter (\<lambda>n. searchFilter exampleEnv ''d'' noFilters n = Inr True) all)"
proof -
  let ?a = "\<lparr>note_id = ''topics/a.md'', note_path = ''notes/topics/a.md'', title = ''a'',
             content = ''abcd.'', metadata = JObject []\<rparr>"
  let ?x = "\<lparr>note_id = ''topics/sub/x.md'', note_path = ''notes/topics/sub/x.md'',
             title = ''x'', content = ''nested note'', metadata = JObject []\<rparr>"
  let ?r = "searchNotes exampleEnv (Some ''admin'') ''d'' noFilters sampleWorld"
  have "fst ?r = Inr [?a, ?x]" by code_simp
  then have h: "?r = (Inr [?a, ?x], snd ?r)" by (metis prod.collapse)
  have q: "''d'' \<noteq> []" by simp
  have c: "\<forall>c \<in> set (toLowerCase ''d''). c \<notin> set rxSyntaxCharacters \<and> c \<noteq> CHR ''.''"
    by code_simp
  have "dotPattern (toLowerCase ''d'') = Some [RxChar CHR ''d'']" by code_simp
  then have d: "readsDotPattern exampleEnv (toLowerCase ''d'')"
    by (simp add: readsDotPattern_def exampleEnv_def)
  from searchNotes_ranking_literal [OF h q c d] show ?thesis by blast
qed

end
